theory Spec2Isabelle
  imports Main "HOL-Library.Sublist"
begin

section \<open>Python strings\<close>

text \<open>
  A Python \<open>str\<close> is a sequence of Unicode code points, so a string is a list of
  natural numbers. \<open>cps\<close> reads an ASCII literal; a code point beyond ASCII is written
  as its number (226 is a-circumflex, 233 is e-acute).
\<close>

type_synonym pystr = "nat list"

definition cps :: "string \<Rightarrow> pystr" where
  "cps s = map of_char s"

definition latin1 :: "pystr \<Rightarrow> bool" where
  "latin1 s = list_all (\<lambda>c. c < 256) s"

text \<open>
  The case mappings of the block U+0000..U+00FF are written out below. Above that block
  the Unicode character database is taken as it comes: the full lower-case and title-case
  mapping of a character, the test for a capital sigma in final position (the one place
  where \<open>lower()\<close> looks at the neighbours of a character), and \<open>isupper()\<close> of a
  character. The mappings are those of \<open>str.lower()\<close> and \<open>str.capitalize()\<close> of Python
  3.8 and later, where \<open>capitalize()\<close> puts the first character in title case.
\<close>

record unicode =
  lower_full :: "nat \<Rightarrow> pystr"
  title_full :: "nat \<Rightarrow> pystr"
  final_sigma :: "pystr \<Rightarrow> nat \<Rightarrow> bool"
  isupper_full :: "nat \<Rightarrow> bool"

definition has_lower_cp :: "nat \<Rightarrow> bool" where
  \<comment> \<open>the code points of the block that \<open>lower()\<close> changes: A..Z, and U+00C0..U+00DE
      without the multiplication sign; they are the upper-case letters of the block\<close>
  "has_lower_cp c = ((65 \<le> c \<and> c \<le> 90) \<or> (192 \<le> c \<and> c \<le> 222 \<and> c \<noteq> 215))"

definition lower_cp :: "unicode \<Rightarrow> nat \<Rightarrow> pystr" where
  "lower_cp U c =
     (if c < 256 then [if has_lower_cp c then c + 32 else c] else lower_full U c)"

definition is_upper_cp :: "unicode \<Rightarrow> nat \<Rightarrow> bool" where
  \<comment> \<open>\<open>c.isupper()\<close>\<close>
  "is_upper_cp U c = (if c < 256 then has_lower_cp c else isupper_full U c)"

definition title_cp :: "unicode \<Rightarrow> nat \<Rightarrow> pystr" where
  \<comment> \<open>in the block: sharp s becomes \<open>Ss\<close>, y-diaeresis and the micro sign leave it\<close>
  "title_cp U c =
     (if c < 256 then
        (if (97 \<le> c \<and> c \<le> 122) \<or> (224 \<le> c \<and> c \<le> 254 \<and> c \<noteq> 247) then [c - 32]
         else if c = 223 then [83, 115]
         else if c = 255 then [376]
         else if c = 181 then [924]
         else [c])
      else title_full U c)"

fun lower_from :: "unicode \<Rightarrow> pystr \<Rightarrow> nat \<Rightarrow> pystr \<Rightarrow> pystr" where
  \<comment> \<open>the characters \<open>cs\<close> of the string \<open>s\<close> from index \<open>i\<close> on, in lower case; a
      capital sigma (931) becomes the final sigma (962) or the small sigma (963)\<close>
  "lower_from U s i [] = []"
| "lower_from U s i (c # cs) =
     (if c = 931 then [if final_sigma U s i then 962 else 963] else lower_cp U c)
     @ lower_from U s (Suc i) cs"

definition py_lower :: "unicode \<Rightarrow> pystr \<Rightarrow> pystr" where
  \<comment> \<open>\<open>s.lower()\<close>\<close>
  "py_lower U s = lower_from U s 0 s"

definition py_capitalize :: "unicode \<Rightarrow> pystr \<Rightarrow> pystr" where
  \<comment> \<open>\<open>s.capitalize()\<close>: the first character in title case, all others in lower case\<close>
  "py_capitalize U s = (case s of [] \<Rightarrow> [] | c # cs \<Rightarrow> title_cp U c @ lower_from U s 1 cs)"

definition startswith :: "pystr \<Rightarrow> pystr \<Rightarrow> bool" where
  "startswith s old = (take (length old) s = old)"

fun py_in :: "pystr \<Rightarrow> pystr \<Rightarrow> bool" where
  \<comment> \<open>\<open>old in s\<close>: \<open>old\<close> occurs in \<open>s\<close> as a substring\<close>
  "py_in old [] = (old = [])"
| "py_in old (c # cs) = (startswith (c # cs) old \<or> py_in old cs)"

function py_replace :: "pystr \<Rightarrow> pystr \<Rightarrow> pystr \<Rightarrow> pystr" where
  \<comment> \<open>\<open>s.replace(old, new)\<close>: every occurrence, leftmost first, without overlap; an
      empty \<open>old\<close> matches before every character and at the end\<close>
  "py_replace s old new =
     (if old = [] then new @ concat (map (\<lambda>c. c # new) s)
      else if s = [] then []
      else if startswith s old then new @ py_replace (drop (length old) s) old new
      else hd s # py_replace (tl s) old new)"
  by pat_completeness auto
termination
  by (relation "measure (\<lambda>(s, old, new). length s)") auto

declare py_replace.simps [simp del]

fun py_join :: "pystr \<Rightarrow> pystr list \<Rightarrow> pystr" where
  \<comment> \<open>\<open>sep.join(xs)\<close>\<close>
  "py_join sep [] = []"
| "py_join sep [x] = x"
| "py_join sep (x # y # ys) = x @ sep @ py_join sep (y # ys)"

function py_str_nat :: "nat \<Rightarrow> pystr" where
  \<comment> \<open>\<open>str(n)\<close> for a non-negative integer\<close>
  "py_str_nat n = (if n < 10 then [48 + n] else py_str_nat (n div 10) @ [48 + n mod 10])"
  by pat_completeness auto
termination
  by (relation "measure id") auto

declare py_str_nat.simps [simp del]

section \<open>Dictionaries in insertion order\<close>

text \<open>
  A Python dict iterates in insertion order; assigning to a key that is present keeps
  its position. A dict is an association list with distinct keys.
\<close>

fun dict_get :: "('k \<times> 'v) list \<Rightarrow> 'k \<Rightarrow> 'v \<Rightarrow> 'v" where
  \<comment> \<open>\<open>d.get(k, default)\<close>\<close>
  "dict_get [] k dflt = dflt"
| "dict_get ((k', v) # d) k dflt = (if k' = k then v else dict_get d k dflt)"

fun dict_set :: "('k \<times> 'v) list \<Rightarrow> 'k \<Rightarrow> 'v \<Rightarrow> ('k \<times> 'v) list" where
  \<comment> \<open>\<open>d[k] = v\<close>\<close>
  "dict_set [] k v = [(k, v)]"
| "dict_set ((k', v') # d) k v = (if k' = k then (k, v) # d else (k', v') # dict_set d k v)"

section \<open>Colour analysis\<close>

type_synonym pixel = "nat \<times> nat \<times> nat"

definition pixel_color :: "pixel \<Rightarrow> pystr" where
  \<comment> \<open>the body of the loop of \<open>analyze_colors\<close> that names the colour of one pixel\<close>
  "pixel_color pixel =
     (case pixel of (r, g, b) \<Rightarrow>
        if r > g \<and> r > b then cps ''rouge''
        else if g > r \<and> g > b then cps ''vert''
        else if b > r \<and> b > g then cps ''bleu''
        else if r > 200 \<and> g > 200 \<and> b > 200 then cps ''blanc''
        else if r < 50 \<and> g < 50 \<and> b < 50 then cps ''noir''
        else cps ''mixte'')"

definition color_buckets :: "pystr list" where
  \<comment> \<open>the six labels that \<open>analyze_colors\<close> can assign\<close>
  "color_buckets =
     [cps ''rouge'', cps ''vert'', cps ''bleu'', cps ''blanc'', cps ''noir'', cps ''mixte'']"

definition count_color :: "(pystr \<times> nat) list \<Rightarrow> pixel \<Rightarrow> (pystr \<times> nat) list" where
  \<comment> \<open>one round of the loop: \<open>color_counts[color] = color_counts.get(color, 0) + 1\<close>\<close>
  "count_color color_counts pixel =
     (let color = pixel_color pixel
      in dict_set color_counts color (dict_get color_counts color 0 + 1))"

definition color_counts :: "pixel list \<Rightarrow> (pystr \<times> nat) list" where
  "color_counts pixels = fold (\<lambda>pixel cc. count_color cc pixel) pixels []"

definition sorted_colors :: "pixel list \<Rightarrow> (pystr \<times> nat) list" where
  \<comment> \<open>\<open>sorted(color_counts.items(), key=lambda x: x[1], reverse=True)\<close>: a stable sort
      with every comparison reversed, so equal counts keep the order of the dict\<close>
  "sorted_colors pixels = sort_key (\<lambda>x. - int (snd x)) (color_counts pixels)"

definition top_colors :: "pixel list \<Rightarrow> pystr list" where
  \<comment> \<open>\<open>analyze_colors\<close> after the resize: from the pixel data to the returned list\<close>
  "top_colors pixels = map fst (take 3 (sorted_colors pixels))"

text \<open>
  What the ranking is measured against: how many pixels of the scan carry a label, and
  the position at which a label is first met in the scan.
\<close>

definition color_count :: "pixel list \<Rightarrow> pystr \<Rightarrow> nat" where
  "color_count px c = length (filter (\<lambda>p. pixel_color p = c) px)"

definition first_seen :: "pixel list \<Rightarrow> pystr \<Rightarrow> nat" where
  "first_seen px c = length (takeWhile (\<lambda>p. pixel_color p \<noteq> c) px)"

definition ranks_before :: "pixel list \<Rightarrow> pystr \<Rightarrow> pystr \<Rightarrow> bool" where
  \<comment> \<open>\<open>c\<close> has more pixels than \<open>d\<close>, or as many and is met first\<close>
  "ranks_before px c d =
     (color_count px d < color_count px c
      \<or> (color_count px c = color_count px d \<and> first_seen px c < first_seen px d))"

section \<open>Translation\<close>

definition translations_fr :: "(pystr \<times> pystr) list" where
  "translations_fr =
     [(cps ''a photo of'', cps ''une photo de''),
      (cps ''an image of'', cps ''une image de''),
      (cps ''person'', cps ''personne''),
      (cps ''people'', cps ''personnes''),
      (cps ''man'', cps ''homme''),
      (cps ''woman'', cps ''femme''),
      (cps ''car'', cps ''voiture''),
      (cps ''dog'', cps ''chien''),
      (cps ''cat'', cps ''chat''),
      (cps ''food'', cps ''nourriture''),
      (cps ''building'', cps ''b'' @ [226] @ cps ''timent''),
      (cps ''street'', cps ''rue''),
      (cps ''tree'', cps ''arbre''),
      (cps ''sky'', cps ''ciel''),
      (cps ''water'', cps ''eau''),
      (cps ''sitting'', cps ''assis''),
      (cps ''standing'', cps ''debout''),
      (cps ''walking'', cps ''marchant''),
      (cps ''on'', cps ''sur''),
      (cps ''in'', cps ''dans''),
      (cps ''with'', cps ''avec''),
      (cps ''and'', cps ''et''),
      (cps ''the'', cps ''le/la''),
      (cps ''a'', cps ''un/une'')]"

definition replace_all :: "(pystr \<times> pystr) list \<Rightarrow> pystr \<Rightarrow> pystr" where
  \<comment> \<open>the loop \<open>for en, fr in ...items(): result = result.replace(en, fr)\<close> over the dict\<close>
  "replace_all table result = fold (\<lambda>(en, fr) result. py_replace result en fr) table result"

definition translate_to_french :: "unicode \<Rightarrow> pystr \<Rightarrow> pystr" where
  "translate_to_french U text = py_capitalize U (replace_all translations_fr (py_lower U text))"

definition no_table_phrase :: "unicode \<Rightarrow> pystr \<Rightarrow> bool" where
  \<comment> \<open>no English phrase of the table occurs in the lower-cased text\<close>
  "no_table_phrase U text =
     list_all (\<lambda>(en, fr). \<not> py_in en (py_lower U text)) translations_fr"

definition lower_fixed :: "unicode \<Rightarrow> nat \<Rightarrow> bool" where
  \<comment> \<open>\<open>lower()\<close> leaves the character as it is, wherever it stands\<close>
  "lower_fixed U d = (d \<noteq> 931 \<and> lower_cp U d = [d])"

definition lower_stable :: "unicode \<Rightarrow> bool" where
  \<comment> \<open>a fact of the Unicode tables: lower-casing what is lower-cased changes nothing. In
      Python: for every character \<open>c\<close>, every character \<open>d\<close> of \<open>c.lower()\<close> is not the
      capital sigma and has \<open>d.lower() == d\<close>\<close>
  "lower_stable U =
     ((\<forall>c. list_all (lower_fixed U) (lower_cp U c)) \<and> lower_fixed U 962 \<and> lower_fixed U 963)"

subsection \<open>The translator as the specification words it\<close>

text \<open>
  Lower-case the input; apply the pairs of the table in table order, each to the string
  as the earlier pairs left it, replacing every occurrence from the left without overlap;
  capitalize the first character of the result and touch nothing else. These definitions
  use none of the functions above. Lower and upper case of the block are read off two
  alphabets, letter by letter: A..Z with the capital letters U+00C0..U+00DE, and a..z with
  the small letters U+00E0..U+00FE.
\<close>

definition upper_letters :: pystr where
  "upper_letters = cps ''ABCDEFGHIJKLMNOPQRSTUVWXYZ''
     @ [192, 193, 194, 195, 196, 197, 198, 199, 200, 201, 202, 203, 204, 205, 206, 207,
        208, 209, 210, 211, 212, 213, 214, 216, 217, 218, 219, 220, 221, 222]"

definition lower_letters :: pystr where
  "lower_letters = cps ''abcdefghijklmnopqrstuvwxyz''
     @ [224, 225, 226, 227, 228, 229, 230, 231, 232, 233, 234, 235, 236, 237, 238, 239,
        240, 241, 242, 243, 244, 245, 246, 248, 249, 250, 251, 252, 253, 254]"

definition spec_lower_cp :: "unicode \<Rightarrow> nat \<Rightarrow> pystr" where
  "spec_lower_cp U c =
     (case map_of (zip upper_letters lower_letters) c of
        Some l \<Rightarrow> [l]
      | None \<Rightarrow> if c < 256 then [c] else lower_full U c)"

fun spec_lower_from :: "unicode \<Rightarrow> pystr \<Rightarrow> nat \<Rightarrow> pystr \<Rightarrow> pystr" where
  "spec_lower_from U s i [] = []"
| "spec_lower_from U s i (c # cs) =
     (if c = 931 then (if final_sigma U s i then [962] else [963]) else spec_lower_cp U c)
     @ spec_lower_from U s (Suc i) cs"

definition spec_lower :: "unicode \<Rightarrow> pystr \<Rightarrow> pystr" where
  "spec_lower U s = spec_lower_from U s 0 s"

definition spec_title_cp :: "unicode \<Rightarrow> nat \<Rightarrow> pystr" where
  "spec_title_cp U c =
     (case map_of (zip lower_letters upper_letters) c of
        Some u \<Rightarrow> [u]
      | None \<Rightarrow>
          if c = 223 then cps ''Ss''
          else if c = 255 then [376]
          else if c = 181 then [924]
          else if c < 256 then [c]
          else title_full U c)"

definition capitalize_first :: "unicode \<Rightarrow> pystr \<Rightarrow> pystr" where
  "capitalize_first U s = (case s of [] \<Rightarrow> [] | c # cs \<Rightarrow> spec_title_cp U c @ cs)"

definition occurs_at :: "pystr \<Rightarrow> pystr \<Rightarrow> nat \<Rightarrow> bool" where
  \<comment> \<open>\<open>old\<close> stands in \<open>s\<close> at index \<open>i\<close>\<close>
  "occurs_at old s i = (i + length old \<le> length s \<and> take (length old) (drop i s) = old)"

definition first_occurrence :: "pystr \<Rightarrow> pystr \<Rightarrow> nat option" where
  \<comment> \<open>the least index at which \<open>old\<close> stands in \<open>s\<close>\<close>
  "first_occurrence old s = find (occurs_at old s) [0..<Suc (length s)]"

function spec_replace :: "pystr \<Rightarrow> pystr \<Rightarrow> pystr \<Rightarrow> pystr" where
  \<comment> \<open>replace the leftmost occurrence and go on behind it; the table has no empty
      phrase, and for one the string is left as it is\<close>
  "spec_replace old new s =
     (if old = [] then s
      else case first_occurrence old s of
             None \<Rightarrow> s
           | Some i \<Rightarrow> take i s @ new @ spec_replace old new (drop (i + length old) s))"
  by pat_completeness auto
termination
proof (relation "measure (\<lambda>(old, new, s). length s)")
  show "wf (measure (\<lambda>(old, new, s). length s))" by simp
next
  fix old new :: pystr and s :: pystr and i :: nat
  assume "old \<noteq> []" and "first_occurrence old s = Some i"
  then have "occurs_at old s i"
    by (auto simp: first_occurrence_def find_Some_iff)
  then have "i + length old \<le> length s" by (simp add: occurs_at_def)
  then have "length s - (i + length old) < length s"
    using \<open>old \<noteq> []\<close> by (cases old) auto
  then show "((old, new, drop (i + length old) s), (old, new, s))
      \<in> measure (\<lambda>(old, new, s). length s)"
    by simp
qed

declare spec_replace.simps [simp del]

fun apply_table :: "(pystr \<times> pystr) list \<Rightarrow> pystr \<Rightarrow> pystr" where
  "apply_table [] s = s"
| "apply_table ((en, fr) # table) s = apply_table table (spec_replace en fr s)"

definition spec_translate :: "unicode \<Rightarrow> pystr \<Rightarrow> pystr" where
  "spec_translate U text =
     capitalize_first U (apply_table translations_fr (spec_lower U text))"

section \<open>The captioning model and the other collaborators\<close>

type_synonym exn = pystr
  \<comment> \<open>a raised exception, as the message \<open>str(e)\<close>\<close>

datatype json =
    JNull
  | JBool bool
  | JInt int
  | JFloat pystr
  | JStr pystr
  | JArr "json list"
  | JObj "(pystr \<times> json) list"

record image =
  width :: nat
  height :: nat
  pixels :: "pixel list"

record model_call =
  prompt :: "pystr option"
  max_length :: nat
  num_beams :: "nat option"

text \<open>
  What the program calls and this repository does not define: base64 decoding, the image
  decoder, the captioning model (processor, \<open>model.generate\<close> and \<open>processor.decode\<close>
  taken together), the resampling of \<open>image.resize((150, 150))\<close> followed by
  \<open>getdata()\<close>, the clock, and the Unicode tables above U+00FF. Every call of
  \<open>model.generate\<close> is appended to a log.
\<close>

record world =
  b64decode :: "json \<Rightarrow> exn + nat list"
  image_open :: "nat list \<Rightarrow> exn + image"
  blip :: "model_call \<Rightarrow> image \<Rightarrow> exn + pystr"
  resize150 :: "image \<Rightarrow> pixel list"
  now_isoformat :: pystr
  now_hhmm :: pystr
  ucd :: unicode

definition generate :: "world \<Rightarrow> model_call \<Rightarrow> image \<Rightarrow> model_call list
    \<Rightarrow> (exn + pystr) \<times> model_call list" where
  "generate w call img log = (blip w call img, log @ [call])"

definition generate_description :: "world \<Rightarrow> image \<Rightarrow> json \<Rightarrow> json \<Rightarrow> model_call list
    \<Rightarrow> (exn + pystr) \<times> model_call list" where
  "generate_description w img language detail_level log =
     (let call =
        (if detail_level = JStr (cps ''detailed'')
         then \<lparr>prompt = Some (cps ''a photography of''), max_length = 100, num_beams = Some 5\<rparr>
         else \<lparr>prompt = None, max_length = 50, num_beams = Some 3\<rparr>)
      in case generate w call img log of
           (Inl e, log') \<Rightarrow> (Inl e, log')
         | (Inr description_en, log') \<Rightarrow>
             (Inr (if language = JStr (cps ''fr'')
                   then translate_to_french (ucd w) description_en
                   else description_en), log'))"

definition common_objects :: "pystr list" where
  "common_objects =
     [cps ''person'', cps ''car'', cps ''animal'', cps ''food'', cps ''building'',
      cps ''nature'', cps ''object'']"

definition objet_non_identifie :: pystr where
  "objet_non_identifie = cps ''objet non identifi'' @ [233]"

definition parse_objects :: "unicode \<Rightarrow> pystr \<Rightarrow> pystr list" where
  \<comment> \<open>\<open>detect_objects\<close> after the model call: from the decoded text to the returned list\<close>
  "parse_objects U objects_text =
     (let detected = filter (\<lambda>obj. py_in obj (py_lower U objects_text)) common_objects
      in if detected \<noteq> [] then detected else [objet_non_identifie])"

definition detect_objects :: "world \<Rightarrow> image \<Rightarrow> model_call list
    \<Rightarrow> (exn + pystr list) \<times> model_call list" where
  "detect_objects w img log =
     (case generate w \<lparr>prompt = Some (cps ''What objects are in this image?''),
                       max_length = 30, num_beams = None\<rparr> img log of
        (Inl e, log') \<Rightarrow> (Inl e, log')
      | (Inr objects_text, log') \<Rightarrow> (Inr (parse_objects (ucd w) objects_text), log'))"

definition analyze_colors :: "world \<Rightarrow> image \<Rightarrow> pystr list" where
  "analyze_colors w img = top_colors (resize150 w img)"

definition format_whatsapp_response :: "world \<Rightarrow> pystr \<Rightarrow> pystr list \<Rightarrow> pystr list \<Rightarrow> pystr" where
  "format_whatsapp_response w description objects colors =
     [128248] @ cps '' *Analyse de votre image*'' @ [10, 10]
     @ [128221] @ cps '' *Description:*'' @ [10] @ description @ [10, 10]
     @ [128269] @ cps '' *'' @ [201] @ cps ''l'' @ [233] @ cps ''ments d'' @ [233]
       @ cps ''tect'' @ [233] @ cps ''s:*'' @ [10] @ py_join (cps '', '') objects @ [10, 10]
     @ [127912] @ cps '' *Couleurs principales:*'' @ [10] @ py_join (cps '', '') colors
       @ [10, 10]
     @ [129302] @ cps '' _Analyse g'' @ [233] @ cps ''n'' @ [233] @ cps ''r'' @ [233]
       @ cps ''e par IA_'' @ [10]
     @ [9200] @ cps '' _'' @ now_hhmm w @ cps ''_''"

section \<open>The endpoint\<close>

text \<open>
  The body that \<open>request.get_json()\<close> returns is any JSON value, or the call raises. The
  three operations of the endpoint on it follow Python: \<open>'image' in data\<close> is a key test
  on an object, a membership test on an array, a substring test on a string, and a
  TypeError on null, a boolean or a number; \<open>data['image']\<close> and \<open>data.get\<close> succeed on
  an object only. The messages are those of CPython 3.11.
\<close>

definition quoted :: "pystr \<Rightarrow> pystr" where
  \<comment> \<open>between two apostrophes\<close>
  "quoted s = [39] @ s @ [39]"

fun py_contains :: "json \<Rightarrow> pystr \<Rightarrow> exn + bool" where
  \<comment> \<open>\<open>key in data\<close>\<close>
  "py_contains (JObj d) key = Inr (key \<in> set (map fst d))"
| "py_contains (JArr xs) key = Inr (JStr key \<in> set xs)"
| "py_contains (JStr s) key = Inr (py_in key s)"
| "py_contains JNull key =
     Inl (cps ''argument of type '' @ quoted (cps ''NoneType'') @ cps '' is not iterable'')"
| "py_contains (JBool b) key =
     Inl (cps ''argument of type '' @ quoted (cps ''bool'') @ cps '' is not iterable'')"
| "py_contains (JInt n) key =
     Inl (cps ''argument of type '' @ quoted (cps ''int'') @ cps '' is not iterable'')"
| "py_contains (JFloat x) key =
     Inl (cps ''argument of type '' @ quoted (cps ''float'') @ cps '' is not iterable'')"

fun py_getitem :: "json \<Rightarrow> pystr \<Rightarrow> exn + json" where
  \<comment> \<open>\<open>data[key]\<close> for a string \<open>key\<close>\<close>
  "py_getitem (JObj d) key =
     (case map_of d key of
        Some v \<Rightarrow> Inr v
      | None \<Rightarrow> Inl (quoted key))"
| "py_getitem (JArr xs) key = Inl (cps ''list indices must be integers or slices, not str'')"
| "py_getitem (JStr s) key =
     Inl (cps ''string indices must be integers, not '' @ quoted (cps ''str''))"
| "py_getitem JNull key = Inl (quoted (cps ''NoneType'') @ cps '' object is not subscriptable'')"
| "py_getitem (JBool b) key = Inl (quoted (cps ''bool'') @ cps '' object is not subscriptable'')"
| "py_getitem (JInt n) key = Inl (quoted (cps ''int'') @ cps '' object is not subscriptable'')"
| "py_getitem (JFloat x) key =
     Inl (quoted (cps ''float'') @ cps '' object is not subscriptable'')"

fun py_get :: "json \<Rightarrow> pystr \<Rightarrow> json \<Rightarrow> exn + json" where
  \<comment> \<open>\<open>data.get(key, default)\<close>\<close>
  "py_get (JObj d) key dflt = Inr (case map_of d key of Some v \<Rightarrow> v | None \<Rightarrow> dflt)"
| "py_get (JArr xs) key dflt =
     Inl (quoted (cps ''list'') @ cps '' object has no attribute '' @ quoted (cps ''get''))"
| "py_get (JStr s) key dflt =
     Inl (quoted (cps ''str'') @ cps '' object has no attribute '' @ quoted (cps ''get''))"
| "py_get JNull key dflt =
     Inl (quoted (cps ''NoneType'') @ cps '' object has no attribute '' @ quoted (cps ''get''))"
| "py_get (JBool b) key dflt =
     Inl (quoted (cps ''bool'') @ cps '' object has no attribute '' @ quoted (cps ''get''))"
| "py_get (JInt n) key dflt =
     Inl (quoted (cps ''int'') @ cps '' object has no attribute '' @ quoted (cps ''get''))"
| "py_get (JFloat x) key dflt =
     Inl (quoted (cps ''float'') @ cps '' object has no attribute '' @ quoted (cps ''get''))"

record analysis =
  description :: pystr
  objects :: "pystr list"
  colors :: "pystr list"
  image_size :: pystr
  timestamp :: pystr
  whatsapp_message :: pystr

datatype body = Success analysis | Failure pystr

type_synonym response = "body \<times> nat"
  \<comment> \<open>the JSON body and the HTTP status\<close>

definition server_error :: "exn \<Rightarrow> response" where
  \<comment> \<open>the handler \<open>except Exception as e\<close>\<close>
  "server_error e = (Failure e, 500)"

definition analyze_image :: "world \<Rightarrow> exn + json \<Rightarrow> model_call list
    \<Rightarrow> response \<times> model_call list" where
  "analyze_image w get_json log =
     (case get_json of
        Inl e \<Rightarrow> (server_error e, log)
      | Inr data \<Rightarrow>
     (case py_contains data (cps ''image'') of
        Inl e \<Rightarrow> (server_error e, log)
      | Inr False \<Rightarrow> ((Failure (cps ''Aucune image fournie''), 400), log)
      | Inr True \<Rightarrow>
     (case py_getitem data (cps ''image'') of
        Inl e \<Rightarrow> (server_error e, log)
      | Inr payload \<Rightarrow>
     (case b64decode w payload of
        Inl e \<Rightarrow> (server_error e, log)
      | Inr image_data \<Rightarrow>
     (case image_open w image_data of
        Inl e \<Rightarrow> (server_error e, log)
      | Inr img \<Rightarrow>
     (case py_get data (cps ''language'') (JStr (cps ''fr'')) of
        Inl e \<Rightarrow> (server_error e, log)
      | Inr language \<Rightarrow>
     (case py_get data (cps ''detail_level'') (JStr (cps ''normal'')) of
        Inl e \<Rightarrow> (server_error e, log)
      | Inr detail_level \<Rightarrow>
     (case generate_description w img language detail_level log of
        (Inl e, log1) \<Rightarrow> (server_error e, log1)
      | (Inr desc, log1) \<Rightarrow>
     (case detect_objects w img log1 of
        (Inl e, log2) \<Rightarrow> (server_error e, log2)
      | (Inr objs, log2) \<Rightarrow>
          (let cols = analyze_colors w img
           in ((Success
                  \<lparr>description = desc,
                   objects = objs,
                   colors = cols,
                   image_size = py_str_nat (width img) @ cps ''x'' @ py_str_nat (height img),
                   timestamp = now_isoformat w,
                   whatsapp_message = format_whatsapp_response w desc objs cols\<rparr>,
                200), log2)))))))))))"

definition client_error :: "nat \<Rightarrow> bool" where
  \<comment> \<open>an HTTP status of the class 4xx\<close>
  "client_error status = (400 \<le> status \<and> status < 500)"

section \<open>A world and two images for worked examples\<close>

text \<open>
  Above U+00FF the example tables know capital sigma (931), capital omega (937), the small
  n preceded by an apostrophe (329, one character, in title case the two characters 700
  and 78) and the double-struck capital C (8450, an upper-case letter that \<open>lower()\<close>
  leaves as it is); every other character up there is taken as caseless and no sigma as
  final. The examples contain no other character above U+00FF and no sigma.

  The model of the example world answers every call with the same text. Its base64 decoder
  knows the payload \<open>YWJj\<close> (the bytes of \<open>abc\<close>) and reports wrong padding for
  anything else, as Python does for \<open>abc\<close>; its image decoder rejects every byte
  string, as PIL does for the bytes of \<open>abc\<close> (PIL's message goes on to name the
  buffer). The example images are 150 by 150 already, and resizing returns such an image
  as it is.
\<close>

definition stub_unicode :: unicode where
  "stub_unicode =
     \<lparr>lower_full = (\<lambda>c. if c = 931 then [963] else if c = 937 then [969] else [c]),
      title_full = (\<lambda>c. if c = 329 then [700, 78]
                         else if c = 969 then [937]
                         else if c = 962 \<or> c = 963 then [931]
                         else [c]),
      final_sigma = (\<lambda>s i. False),
      isupper_full = (\<lambda>c. c = 931 \<or> c = 937 \<or> c = 8450)\<rparr>"

definition stub_world :: "pystr \<Rightarrow> world" where
  "stub_world answer =
     \<lparr>b64decode = (\<lambda>p. if p = JStr (cps ''YWJj'') then Inr [97, 98, 99]
                       else Inl (cps ''Incorrect padding'')),
      image_open = (\<lambda>bs. Inl (cps ''cannot identify image file'')),
      blip = (\<lambda>call img. Inr answer),
      resize150 = pixels,
      now_isoformat = cps ''2024-01-01T12:00:00'',
      now_hhmm = cps ''12:00'',
      ucd = stub_unicode\<rparr>"

definition red150 :: image where
  "red150 = \<lparr>width = 150, height = 150, pixels = replicate (150 * 150) (255, 0, 0)\<rparr>"

definition mosaic :: image where
  \<comment> \<open>50 rows of green, 50 of red, 25 of blue, 25 of white\<close>
  "mosaic =
     \<lparr>width = 150, height = 150,
      pixels = replicate 7500 (0, 255, 0) @ replicate 7500 (255, 0, 0)
        @ replicate 3750 (0, 0, 255) @ replicate 3750 (255, 255, 255)\<rparr>"

section \<open>The dictionary of colour counts\<close>

lemma dict_set_keys:
  "map fst (dict_set d k v) = (if k \<in> set (map fst d) then map fst d else map fst d @ [k])"
  by (induction d) force+

lemma dict_get_set: "dict_get (dict_set d k v) k' dflt = (if k' = k then v else dict_get d k' dflt)"
  by (induction d) auto

lemma dict_get_entry: "distinct (map fst d) \<Longrightarrow> (k, n) \<in> set d \<Longrightarrow> dict_get d k dflt = n"
  by (induction d) (auto simp: rev_image_eqI)

lemma color_counts_Nil: "color_counts [] = []"
  by (simp add: color_counts_def)

lemma color_counts_snoc: "color_counts (xs @ [x]) = count_color (color_counts xs) x"
  by (simp add: color_counts_def)

lemma color_counts_keys_set: "set (map fst (color_counts xs)) = pixel_color ` set xs"
  by (induction xs rule: rev_induct)
     (auto simp: color_counts_Nil color_counts_snoc count_color_def dict_set_keys Let_def)

lemma color_counts_keys_distinct: "distinct (map fst (color_counts xs))"
  by (induction xs rule: rev_induct)
     (auto simp: color_counts_Nil color_counts_snoc count_color_def dict_set_keys Let_def)

lemma color_counts_get: "dict_get (color_counts xs) c 0 = color_count xs c"
  by (induction xs rule: rev_induct)
     (auto simp: color_counts_Nil color_counts_snoc count_color_def dict_get_set color_count_def Let_def)

lemma color_counts_entry: "(c, n) \<in> set (color_counts xs) \<Longrightarrow> n = color_count xs c"
  using dict_get_entry [OF color_counts_keys_distinct] color_counts_get by metis

lemma first_seen_less: "c \<in> pixel_color ` set xs \<Longrightarrow> first_seen xs c < length xs"
proof -
  assume "c \<in> pixel_color ` set xs"
  then have "takeWhile (\<lambda>p. pixel_color p \<noteq> c) xs \<noteq> xs"
    by auto
  moreover have "length (takeWhile (\<lambda>p. pixel_color p \<noteq> c) xs) \<le> length xs"
    by (rule length_takeWhile_le)
  ultimately show ?thesis
    unfolding first_seen_def
    by (metis le_neq_implies_less takeWhile_eq_take take_all_iff order_refl)
qed

lemma first_seen_snoc_old: "c \<in> pixel_color ` set xs \<Longrightarrow> first_seen (xs @ [x]) c = first_seen xs c"
  by (auto simp: first_seen_def)

lemma first_seen_snoc_new:
  "c \<notin> pixel_color ` set xs \<Longrightarrow> pixel_color x = c \<Longrightarrow> first_seen (xs @ [x]) c = length xs"
proof -
  assume "c \<notin> pixel_color ` set xs" and x: "pixel_color x = c"
  then have "\<forall>p\<in>set xs. pixel_color p \<noteq> c" by blast
  then have "takeWhile (\<lambda>p. pixel_color p \<noteq> c) (xs @ [x]) = xs @ takeWhile (\<lambda>p. pixel_color p \<noteq> c) [x]"
    by simp
  then show ?thesis using x by (simp add: first_seen_def)
qed

lemma color_counts_keys_order:
  "sorted_wrt (\<lambda>a b. first_seen xs a < first_seen xs b) (map fst (color_counts xs))"
proof (induction xs rule: rev_induct)
  case Nil
  show ?case by (simp add: color_counts_Nil)
next
  case (snoc x xs)
  let ?ks = "map fst (color_counts xs)"
  have old: "sorted_wrt (\<lambda>a b. first_seen (xs @ [x]) a < first_seen (xs @ [x]) b) ?ks"
  proof (rule sorted_wrt_mono_rel [OF _ snoc.IH])
    fix a b assume "a \<in> set ?ks" "b \<in> set ?ks" "first_seen xs a < first_seen xs b"
    then show "first_seen (xs @ [x]) a < first_seen (xs @ [x]) b"
      using color_counts_keys_set [of xs] by (simp add: first_seen_snoc_old)
  qed
  show ?case
  proof (cases "pixel_color x \<in> set ?ks")
    case True
    then show ?thesis using old
      by (simp add: color_counts_snoc count_color_def dict_set_keys Let_def)
  next
    case False
    have "\<forall>a\<in>set ?ks. first_seen (xs @ [x]) a < first_seen (xs @ [x]) (pixel_color x)"
    proof
      fix a assume a: "a \<in> set ?ks"
      then have "a \<in> pixel_color ` set xs" using color_counts_keys_set [of xs] by simp
      moreover have "pixel_color x \<notin> pixel_color ` set xs"
        using False color_counts_keys_set [of xs] by simp
      ultimately show "first_seen (xs @ [x]) a < first_seen (xs @ [x]) (pixel_color x)"
        by (simp add: first_seen_snoc_old first_seen_snoc_new first_seen_less)
    qed
    then show ?thesis using old False
      by (simp add: color_counts_snoc count_color_def dict_set_keys sorted_wrt_append Let_def)
  qed
qed

section \<open>Sorting by count keeps the order of first occurrence among equals\<close>

lemma insort_key_ranked:
  fixes k :: "'a \<Rightarrow> int" and pos :: "'a \<Rightarrow> nat"
  assumes "sorted_wrt (\<lambda>a b. k a < k b \<or> (k a = k b \<and> pos a < pos b)) ys"
    and "\<forall>y\<in>set ys. pos x < pos y"
  shows "sorted_wrt (\<lambda>a b. k a < k b \<or> (k a = k b \<and> pos a < pos b)) (insort_key k x ys)"
  using assms
proof (induction ys)
  case Nil
  show ?case by simp
next
  case (Cons y ys)
  show ?case
  proof (cases "k x \<le> k y")
    case True
    have "\<forall>z\<in>set ys. k y \<le> k z" using Cons.prems(1) by auto
    then have "\<forall>z\<in>set (y # ys). k x \<le> k z" using True by auto
    then have "\<forall>z\<in>set (y # ys). k x < k z \<or> (k x = k z \<and> pos x < pos z)"
      using Cons.prems(2) by fastforce
    then show ?thesis using True Cons.prems(1) by simp
  next
    case False
    have "sorted_wrt (\<lambda>a b. k a < k b \<or> (k a = k b \<and> pos a < pos b)) (insort_key k x ys)"
      using Cons by simp
    moreover have "\<forall>z\<in>set (insort_key k x ys). k y < k z \<or> (k y = k z \<and> pos y < pos z)"
      using False Cons.prems(1) by (auto simp: set_insort_key)
    ultimately show ?thesis using False by simp
  qed
qed

lemma sort_key_ranked:
  fixes k :: "'a \<Rightarrow> int" and pos :: "'a \<Rightarrow> nat"
  assumes "sorted_wrt (\<lambda>a b. pos a < pos b) xs"
  shows "sorted_wrt (\<lambda>a b. k a < k b \<or> (k a = k b \<and> pos a < pos b)) (sort_key k xs)"
  using assms
proof (induction xs)
  case Nil
  show ?case by simp
next
  case (Cons x xs)
  have "\<forall>y\<in>set (sort_key k xs). pos x < pos y" using Cons.prems by simp
  moreover have "sorted_wrt (\<lambda>a b. k a < k b \<or> (k a = k b \<and> pos a < pos b)) (sort_key k xs)"
    using Cons by simp
  ultimately show ?case by (simp add: insort_key_ranked)
qed

lemma sorted_colors_set: "set (sorted_colors xs) = set (color_counts xs)"
  by (simp add: sorted_colors_def)

lemma sorted_colors_length: "length (sorted_colors xs) = length (color_counts xs)"
  by (simp add: sorted_colors_def)

lemma sorted_colors_keys_distinct: "distinct (map fst (sorted_colors xs))"
  using color_counts_keys_distinct [of xs] by (simp add: sorted_colors_def distinct_map)

lemma sorted_colors_keys_set: "set (map fst (sorted_colors xs)) = pixel_color ` set xs"
  using color_counts_keys_set [of xs] by (simp add: sorted_colors_set)

lemma sorted_colors_ranked: "sorted_wrt (ranks_before xs) (map fst (sorted_colors xs))"
proof -
  let ?k = "\<lambda>x :: pystr \<times> nat. - int (snd x)"
  let ?pos = "\<lambda>x :: pystr \<times> nat. first_seen xs (fst x)"
  have "sorted_wrt (\<lambda>a b. ?pos a < ?pos b) (color_counts xs)"
    using color_counts_keys_order [of xs] by (simp add: sorted_wrt_map)
  then have "sorted_wrt (\<lambda>a b. ?k a < ?k b \<or> (?k a = ?k b \<and> ?pos a < ?pos b)) (sorted_colors xs)"
    unfolding sorted_colors_def by (rule sort_key_ranked)
  then have "sorted_wrt (\<lambda>a b. ranks_before xs (fst a) (fst b)) (sorted_colors xs)"
  proof (rule sorted_wrt_mono_rel [rotated])
    fix a b
    assume a: "a \<in> set (sorted_colors xs)" and b: "b \<in> set (sorted_colors xs)"
      and r: "?k a < ?k b \<or> (?k a = ?k b \<and> ?pos a < ?pos b)"
    have "snd a = color_count xs (fst a)"
      using a color_counts_entry [of "fst a" "snd a" xs] by (simp add: sorted_colors_set)
    moreover have "snd b = color_count xs (fst b)"
      using b color_counts_entry [of "fst b" "snd b" xs] by (simp add: sorted_colors_set)
    ultimately show "ranks_before xs (fst a) (fst b)"
      using r by (auto simp: ranks_before_def)
  qed
  then show ?thesis by (simp add: sorted_wrt_map)
qed

lemma top_colors_length: "length (top_colors xs) = min 3 (card (pixel_color ` set xs))"
proof -
  have "length (sorted_colors xs) = card (pixel_color ` set xs)"
    using distinct_card [OF sorted_colors_keys_distinct [of xs]] sorted_colors_keys_set [of xs]
    by simp
  then show ?thesis by (simp add: top_colors_def)
qed

lemma top_colors_take: "top_colors xs = take 3 (map fst (sorted_colors xs))"
  by (simp add: top_colors_def take_map)

lemma top_colors_subset: "set (top_colors xs) \<subseteq> pixel_color ` set xs"
  using set_take_subset [of 3 "map fst (sorted_colors xs)"] sorted_colors_keys_set [of xs]
  by (simp add: top_colors_take)

lemma top_colors_distinct: "distinct (top_colors xs)"
  using sorted_colors_keys_distinct [of xs] by (simp add: top_colors_take)

lemma top_colors_ranked: "sorted_wrt (ranks_before xs) (top_colors xs)"
  using sorted_colors_ranked [of xs] by (simp add: top_colors_take)

lemma top_colors_best:
  assumes "c \<in> pixel_color ` set xs" and "c \<notin> set (top_colors xs)" and "d \<in> set (top_colors xs)"
  shows "ranks_before xs d c"
proof -
  let ?l = "map fst (sorted_colors xs)"
  have "c \<in> set ?l" using assms(1) sorted_colors_keys_set [of xs] by simp
  then have "c \<in> set (take 3 ?l) \<union> set (drop 3 ?l)"
    by (metis append_take_drop_id set_append)
  then have c: "c \<in> set (drop 3 ?l)" using assms(2) by (simp add: top_colors_take)
  have "sorted_wrt (ranks_before xs) (take 3 ?l @ drop 3 ?l)"
    using sorted_colors_ranked [of xs] by simp
  then show ?thesis using c assms(3) unfolding sorted_wrt_append
    by (simp add: top_colors_take)
qed

lemma color_counts_replicate: "color_counts (replicate (Suc n) p) = [(pixel_color p, Suc n)]"
proof (induction n)
  case 0
  show ?case by (simp add: color_counts_def count_color_def)
next
  case (Suc n)
  have "color_counts (replicate (Suc (Suc n)) p) = color_counts (replicate (Suc n) p @ [p])"
    by (simp only: replicate_append_same) simp
  then show ?case using Suc by (simp add: color_counts_snoc count_color_def del: replicate_Suc)
qed

lemma top_colors_replicate: "0 < n \<Longrightarrow> top_colors (replicate n p) = [pixel_color p]"
  using color_counts_replicate [of "n - 1" p] by (simp add: top_colors_def sorted_colors_def)

lemma dict_set_twice: "dict_set (dict_set d k v) k v' = dict_set d k v'"
  by (induction d) auto

lemma count_color_funpow:
  "0 < n \<Longrightarrow> ((\<lambda>cc. count_color cc p) ^^ n) cc =
     dict_set cc (pixel_color p) (dict_get cc (pixel_color p) 0 + n)"
proof (induction n)
  case 0
  then show ?case by simp
next
  case (Suc n)
  show ?case
  proof (cases "n = 0")
    case True
    then show ?thesis by (simp add: count_color_def Let_def)
  next
    case False
    then have "((\<lambda>cc. count_color cc p) ^^ n) cc =
        dict_set cc (pixel_color p) (dict_get cc (pixel_color p) 0 + n)"
      using Suc.IH by simp
    then show ?thesis
      by (simp add: count_color_def Let_def dict_set_twice dict_get_set)
  qed
qed

section \<open>The example images, evaluated\<close>

lemma mosaic_counts: "color_counts (pixels mosaic) =
   [(cps ''vert'', 7500), (cps ''rouge'', 7500), (cps ''bleu'', 3750), (cps ''blanc'', 3750)]"
  by (simp add: mosaic_def color_counts_def count_color_funpow pixel_color_def cps_def)

lemma mosaic_top: "top_colors (pixels mosaic) = [cps ''vert'', cps ''rouge'', cps ''bleu'']"
  by (simp add: top_colors_def sorted_colors_def mosaic_counts)

lemma color_buckets_distinct: "distinct color_buckets"
  by (simp add: color_buckets_def cps_def)

lemma pixel_color_in_buckets: "pixel_color p \<in> set color_buckets"
  by (cases p) (simp add: pixel_color_def color_buckets_def)

section \<open>The case mappings and the two alphabets\<close>

lemma upper_letters_upt: "upper_letters = [65..<91] @ [192..<215] @ [216..<223]"
  by (simp add: upper_letters_def cps_def)

lemma lower_letters_upt: "lower_letters = [97..<123] @ [224..<247] @ [248..<255]"
  by (simp add: lower_letters_def cps_def)

lemma upper_letters_set: "c \<in> set upper_letters \<longleftrightarrow> has_lower_cp c"
  by (simp only: upper_letters_upt set_append set_upt) (auto simp: has_lower_cp_def)

lemma lower_letters_set:
  "c \<in> set lower_letters \<longleftrightarrow> (97 \<le> c \<and> c \<le> 122) \<or> (224 \<le> c \<and> c \<le> 254 \<and> c \<noteq> 247)"
  by (simp only: lower_letters_upt set_append set_upt) auto

lemma lower_letters_map: "lower_letters = map (\<lambda>c. c + 32) upper_letters"
  by (simp add: lower_letters_def upper_letters_def cps_def)

lemma upper_letters_map: "upper_letters = map (\<lambda>c. c - 32) lower_letters"
  by (simp add: lower_letters_def upper_letters_def cps_def)

lemma lower_of_letters:
  "map_of (zip upper_letters lower_letters) c = (if has_lower_cp c then Some (c + 32) else None)"
  by (subst lower_letters_map) (simp add: map_of_zip_map upper_letters_set)

lemma upper_of_letters:
  "map_of (zip lower_letters upper_letters) c =
     (if (97 \<le> c \<and> c \<le> 122) \<or> (224 \<le> c \<and> c \<le> 254 \<and> c \<noteq> 247) then Some (c - 32) else None)"
  by (subst upper_letters_map) (simp add: map_of_zip_map lower_letters_set)

lemma lower_cp_spec: "lower_cp U c = spec_lower_cp U c"
  by (auto simp: lower_cp_def spec_lower_cp_def lower_of_letters has_lower_cp_def)

lemma title_cp_spec: "title_cp U c = spec_title_cp U c"
  by (auto simp: title_cp_def spec_title_cp_def upper_of_letters cps_def)

lemma lower_from_spec: "lower_from U s i cs = spec_lower_from U s i cs"
  by (induction cs arbitrary: i) (simp_all add: lower_cp_spec)

lemma py_lower_spec: "py_lower U s = spec_lower U s"
  by (simp add: py_lower_def spec_lower_def lower_from_spec)

section \<open>Replacement from the left\<close>

lemma occurs_at_0: "old \<noteq> [] \<Longrightarrow> occurs_at old s 0 \<longleftrightarrow> startswith s old"
proof -
  have "length old \<le> length s" if "take (length old) s = old"
  proof -
    have "length (take (length old) s) = length old" using that by simp
    then show ?thesis by simp
  qed
  then show ?thesis by (auto simp: occurs_at_def startswith_def)
qed

lemma occurs_at_Suc: "occurs_at old (c # s) (Suc i) \<longleftrightarrow> occurs_at old s i"
  by (simp add: occurs_at_def)

lemma occurs_at_append:
  assumes "i + length old \<le> length s"
  shows "occurs_at old (s @ t) i \<longleftrightarrow> occurs_at old s i"
  using assms by (simp add: occurs_at_def)

lemma py_replace_skip:
  assumes "old \<noteq> []" and "\<forall>i<length u. \<not> occurs_at old (u @ old @ rest) i"
  shows "py_replace (u @ old @ rest) old new = u @ new @ py_replace rest old new"
  using assms(2)
proof (induction u)
  case Nil
  have "startswith (old @ rest) old" by (simp add: startswith_def)
  then show ?case using assms(1) by (subst py_replace.simps) simp
next
  case (Cons c u)
  have "\<not> occurs_at old ((c # u) @ old @ rest) 0" using Cons.prems by auto
  then have n: "\<not> startswith ((c # u) @ old @ rest) old"
    using assms(1) by (simp add: occurs_at_0)
  have "\<forall>i<length u. \<not> occurs_at old (u @ old @ rest) i"
  proof (intro allI impI)
    fix i assume "i < length u"
    then have "\<not> occurs_at old ((c # u) @ old @ rest) (Suc i)" using Cons.prems by auto
    then show "\<not> occurs_at old (u @ old @ rest) i" by (simp add: occurs_at_Suc)
  qed
  then have "py_replace (u @ old @ rest) old new = u @ new @ py_replace rest old new"
    by (rule Cons.IH)
  then show ?case using n assms(1) by (subst py_replace.simps) simp
qed

lemma py_in_occurs: "old \<noteq> [] \<Longrightarrow> py_in old s \<longleftrightarrow> (\<exists>i. occurs_at old s i)"
proof (induction s)
  case Nil
  then show ?case by (simp add: occurs_at_def)
next
  case (Cons c s)
  have "(\<exists>i. occurs_at old (c # s) i) \<longleftrightarrow> occurs_at old (c # s) 0 \<or> (\<exists>i. occurs_at old s i)"
    by (metis occurs_at_Suc not0_implies_Suc)
  then show ?case using Cons by (simp add: occurs_at_0)
qed

lemma py_in_Nil: "py_in [] s"
  by (cases s) (simp_all add: startswith_def)

lemma py_replace_absent: "\<not> py_in old s \<Longrightarrow> py_replace s old new = s"
proof (induction s)
  case Nil
  then show ?case by (subst py_replace.simps) simp
next
  case (Cons c cs)
  have "old \<noteq> []" using Cons.prems py_in_Nil by blast
  moreover have "\<not> startswith (c # cs) old" using Cons.prems by simp
  moreover have "py_replace cs old new = cs" using Cons by simp
  ultimately show ?case by (subst py_replace.simps) simp
qed

lemma first_occurrence_None:
  "old \<noteq> [] \<Longrightarrow> first_occurrence old s = None \<Longrightarrow> \<not> py_in old s"
proof -
  assume old: "old \<noteq> []" and f: "first_occurrence old s = None"
  have n: "\<not> (\<exists>i. i \<in> set [0..<Suc (length s)] \<and> occurs_at old s i)"
    using f unfolding first_occurrence_def find_None_iff by blast
  have "\<not> occurs_at old s i" for i
  proof
    assume o: "occurs_at old s i"
    then have "i < Suc (length s)" by (simp add: occurs_at_def)
    then have "i \<in> set [0..<Suc (length s)]" by auto
    then show False using n o by blast
  qed
  then show ?thesis using old by (simp add: py_in_occurs)
qed

lemma first_occurrence_Some:
  assumes "first_occurrence old s = Some i"
  shows "occurs_at old s i \<and> (\<forall>j<i. \<not> occurs_at old s j)"
proof -
  from assms obtain k where k: "k < length [0..<Suc (length s)]"
      "occurs_at old s ([0..<Suc (length s)] ! k)" "i = [0..<Suc (length s)] ! k"
      "\<forall>j<k. \<not> occurs_at old s ([0..<Suc (length s)] ! j)"
    unfolding first_occurrence_def find_Some_iff by blast
  then have ik: "i = k" by (metis add_0 length_upt nth_upt minus_nat.diff_0)
  have "\<not> occurs_at old s j" if "j < i" for j
  proof -
    have "j < k" using that ik by simp
    moreover have "[0..<Suc (length s)] ! j = j"
      using that ik k(1) by (metis add_0 length_upt less_trans nth_upt minus_nat.diff_0)
    ultimately show ?thesis using k(4) by metis
  qed
  then show ?thesis using k(2,3) by simp
qed

lemma py_replace_spec: "old \<noteq> [] \<Longrightarrow> py_replace s old new = spec_replace old new s"
proof (induction old new s rule: spec_replace.induct)
  case (1 old new s)
  show ?case
  proof (cases "first_occurrence old s")
    case None
    then have "py_replace s old new = s"
      using "1.prems" by (simp add: first_occurrence_None py_replace_absent)
    then show ?thesis using None "1.prems" by (subst spec_replace.simps) simp
  next
    case (Some i)
    note f = first_occurrence_Some [OF Some]
    let ?rest = "drop (i + length old) s"
    have le: "i + length old \<le> length s" using f by (simp add: occurs_at_def)
    have "take (length old) (drop i s) = old" using f by (simp add: occurs_at_def)
    then have "drop i s = old @ ?rest"
      by (metis append_take_drop_id drop_drop add.commute)
    then have s: "s = take i s @ old @ ?rest" by (metis append_take_drop_id)
    have li: "length (take i s) = i" using le by simp
    have "\<forall>j<length (take i s). \<not> occurs_at old (take i s @ old @ ?rest) j"
      using f li s by simp
    then have "py_replace (take i s @ old @ ?rest) old new =
        take i s @ new @ py_replace ?rest old new"
      using "1.prems" by (rule py_replace_skip [rotated])
    then have "py_replace s old new = take i s @ new @ py_replace ?rest old new"
      using s by simp
    moreover have "py_replace ?rest old new = spec_replace old new ?rest"
      using "1.IH" [OF "1.prems" Some] "1.prems" by simp
    ultimately show ?thesis using Some "1.prems" by (subst spec_replace.simps) simp
  qed
qed

lemma replace_all_Cons: "replace_all ((en, fr) # table) s = replace_all table (py_replace s en fr)"
  by (simp add: replace_all_def)

lemma replace_all_Nil: "replace_all [] s = s"
  by (simp add: replace_all_def)

lemma replace_all_spec:
  "list_all (\<lambda>(en, fr). en \<noteq> []) table \<Longrightarrow> replace_all table s = apply_table table s"
  by (induction table arbitrary: s)
     (auto simp: replace_all_Nil replace_all_Cons py_replace_spec)

lemma translations_fr_phrases: "list_all (\<lambda>(en, fr). en \<noteq> []) translations_fr"
  by (simp add: translations_fr_def cps_def)

section \<open>What lower-casing leaves unchanged\<close>

lemma lower_fixed_block: "c < 256 \<Longrightarrow> lower_fixed U c \<longleftrightarrow> \<not> has_lower_cp c"
  by (simp add: lower_fixed_def lower_cp_def)

lemma lower_from_fixed: "\<forall>d\<in>set cs. lower_fixed U d \<Longrightarrow> lower_from U s i cs = cs"
  by (induction cs arbitrary: i) (simp_all add: lower_fixed_def)

lemma lower_from_stable:
  assumes "lower_stable U"
  shows "\<forall>d\<in>set (lower_from U s i cs). lower_fixed U d"
proof (induction cs arbitrary: i)
  case Nil
  show ?case by simp
next
  case (Cons c cs)
  have a: "\<forall>d\<in>set (lower_cp U c). lower_fixed U d"
    using assms by (simp add: lower_stable_def list_all_iff)
  have b: "lower_fixed U 962" "lower_fixed U 963"
    using assms by (simp_all add: lower_stable_def)
  show ?case using a b Cons.IH by (simp add: ball_Un)
qed

lemma py_replace_subset: "set (py_replace s old new) \<subseteq> set s \<union> set new"
proof (induction s old new rule: py_replace.induct)
  case (1 s old new)
  show ?case
  proof (cases "old = []")
    case True
    then show ?thesis by (subst py_replace.simps) auto
  next
    case False
    note old = this
    show ?thesis
    proof (cases s)
      case Nil
      then show ?thesis using old by (subst py_replace.simps) simp
    next
      case (Cons c cs)
      show ?thesis
      proof (cases "startswith s old")
        case True
        have "set (py_replace (drop (length old) s) old new) \<subseteq> set (drop (length old) s) \<union> set new"
          using "1.IH"(1) old Cons True by simp
        moreover have "set (drop (length old) s) \<subseteq> set s" by (rule set_drop_subset)
        ultimately show ?thesis using old Cons True
          by (subst py_replace.simps) auto
      next
        case False
        have "set (py_replace (tl s) old new) \<subseteq> set (tl s) \<union> set new"
          using "1.IH"(2) old Cons False by simp
        then show ?thesis using old Cons False
          by (subst py_replace.simps) auto
      qed
    qed
  qed
qed

lemma replace_all_subset: "set (replace_all table s) \<subseteq> set s \<union> (\<Union>p\<in>set table. set (snd p))"
proof (induction table arbitrary: s)
  case Nil
  show ?case by (simp add: replace_all_Nil)
next
  case (Cons p table)
  obtain en fr where p: "p = (en, fr)" by (cases p)
  have "set (replace_all table (py_replace s en fr))
      \<subseteq> set (py_replace s en fr) \<union> (\<Union>p\<in>set table. set (snd p))"
    by (rule Cons.IH)
  then show ?case using py_replace_subset [of s en fr] by (auto simp: p replace_all_Cons)
qed

lemma translations_fr_block:
  "\<forall>c \<in> (\<Union>p\<in>set translations_fr. set (snd p)). c < 256 \<and> \<not> has_lower_cp c"
  by (simp add: translations_fr_def cps_def has_lower_cp_def)

lemma replaced_fixed:
  assumes "lower_stable U" and "c \<in> set (replace_all translations_fr (py_lower U s))"
  shows "lower_fixed U c"
proof -
  have "c \<in> set (py_lower U s) \<or> c \<in> (\<Union>p\<in>set translations_fr. set (snd p))"
    using assms(2) replace_all_subset [of translations_fr "py_lower U s"] by blast
  then show ?thesis
  proof
    assume "c \<in> set (py_lower U s)"
    then show ?thesis using lower_from_stable [OF assms(1)] by (simp add: py_lower_def)
  next
    assume "c \<in> (\<Union>p\<in>set translations_fr. set (snd p))"
    then have "c < 256 \<and> \<not> has_lower_cp c" using translations_fr_block by blast
    then show ?thesis by (simp add: lower_fixed_block)
  qed
qed

lemma py_capitalize_fixed:
  "\<forall>c\<in>set (tl s). lower_fixed U c \<Longrightarrow> py_capitalize U s = capitalize_first U s"
  by (cases s) (simp_all add: py_capitalize_def capitalize_first_def lower_from_fixed
      title_cp_spec)

lemma translate_refines:
  assumes "lower_stable U"
  shows "translate_to_french U s = spec_translate U s"
proof -
  let ?r = "replace_all translations_fr (py_lower U s)"
  have "\<forall>c\<in>set (tl ?r). lower_fixed U c"
    using replaced_fixed [OF assms] by (metis list.set_sel(2) tl_Nil)
  then have "py_capitalize U ?r = capitalize_first U ?r" by (rule py_capitalize_fixed)
  then show ?thesis
    by (simp add: translate_to_french_def spec_translate_def py_lower_spec
        replace_all_spec [OF translations_fr_phrases])
qed

lemma replace_all_absent:
  "list_all (\<lambda>(en, fr). \<not> py_in en s) table \<Longrightarrow> replace_all table s = s"
  by (induction table) (auto simp: replace_all_Nil replace_all_Cons py_replace_absent)

lemma translate_no_phrase:
  assumes "lower_stable U" and "no_table_phrase U s"
  shows "translate_to_french U s = capitalize_first U (py_lower U s)"
proof -
  have "\<forall>c\<in>set (tl (py_lower U s)). lower_fixed U c"
    using lower_from_stable [OF assms(1)] by (metis list.set_sel(2) tl_Nil py_lower_def)
  then have "py_capitalize U (py_lower U s) = capitalize_first U (py_lower U s)"
    by (rule py_capitalize_fixed)
  then show ?thesis
    using assms(2) by (simp add: no_table_phrase_def translate_to_french_def replace_all_absent)
qed

lemma translate_lower_only:
  "py_lower U s = py_lower U t \<Longrightarrow> translate_to_french U s = translate_to_french U t"
  by (simp add: translate_to_french_def)

lemma title_cp_round_trip:
  assumes "c < 256" and "c \<notin> {181, 223, 255}" and "\<not> has_lower_cp c"
  shows "\<exists>u. title_cp U c = [u] \<and> u \<noteq> 931 \<and> lower_cp U u = [c]"
  using assms by (auto simp: title_cp_def lower_cp_def has_lower_cp_def)

lemma lower_cp_block_first:
  assumes "c < 256"
  shows "\<exists>l. lower_cp U c = [l] \<and> l < 256 \<and> \<not> has_lower_cp l \<and> (l \<in> {181, 223, 255} \<longleftrightarrow> c \<in> {181, 223, 255})"
  using assms by (auto simp: lower_cp_def has_lower_cp_def)

lemma translate_round_trip:
  assumes "lower_stable U" and "no_table_phrase U s"
    and "\<forall>c\<in>set (take 1 s). c < 256 \<and> c \<notin> {181, 223, 255}"
  shows "py_lower U (translate_to_french U s) = py_lower U s"
proof (cases s)
  case Nil
  have "spec_replace old new [] = []" for old new
    by (subst spec_replace.simps) (simp add: first_occurrence_def occurs_at_def)
  then have "apply_table table [] = []" for table
    by (induction table) auto
  then have "replace_all translations_fr [] = []"
    by (simp add: replace_all_spec [OF translations_fr_phrases])
  then show ?thesis using Nil
    by (simp add: translate_to_french_def py_lower_def py_capitalize_def)
next
  case (Cons c cs)
  then have c: "c < 256" "c \<notin> {181, 223, 255}" using assms(3) by auto
  then have c931: "c \<noteq> 931" by simp
  obtain l where l: "lower_cp U c = [l]" "l < 256" "\<not> has_lower_cp l" "l \<notin> {181, 223, 255}"
    using lower_cp_block_first [OF c(1), of U] c(2) by blast
  obtain u where u: "title_cp U l = [u]" "u \<noteq> 931" "lower_cp U u = [l]"
    using title_cp_round_trip [OF l(2) l(4) l(3), of U] by blast
  let ?rest = "lower_from U s 1 cs"
  have low: "py_lower U s = l # ?rest"
    using Cons c931 l(1) by (simp add: py_lower_def)
  have fixed: "\<forall>d\<in>set ?rest. lower_fixed U d" using lower_from_stable [OF assms(1)] by blast
  have "translate_to_french U s = capitalize_first U (l # ?rest)"
    using translate_no_phrase [OF assms(1,2)] low by simp
  then have t: "translate_to_french U s = u # ?rest"
    using u(1) by (simp add: capitalize_first_def title_cp_spec [symmetric])
  have "py_lower U (u # ?rest) = l # ?rest"
    using u(2,3) fixed by (simp add: py_lower_def lower_from_fixed)
  then show ?thesis using t low by simp
qed

lemma lower_from_block:
  "latin1 cs \<Longrightarrow> \<forall>d\<in>set (lower_from U s i cs). d < 256 \<and> \<not> has_lower_cp d"
  by (induction cs arbitrary: i) (auto simp: latin1_def lower_cp_def has_lower_cp_def)

lemma replaced_block:
  assumes "latin1 s" and "c \<in> set (replace_all translations_fr (py_lower U s))"
  shows "c < 256 \<and> \<not> has_lower_cp c"
proof -
  have "c \<in> set (py_lower U s) \<or> c \<in> (\<Union>p\<in>set translations_fr. set (snd p))"
    using assms(2) replace_all_subset [of translations_fr "py_lower U s"] by blast
  then show ?thesis
    using lower_from_block [OF assms(1)] translations_fr_block by (auto simp: py_lower_def)
qed

lemma tl_title_cp_block: "c < 256 \<Longrightarrow> \<forall>d\<in>set (tl (title_cp U c)). d < 256 \<and> \<not> has_lower_cp d"
  by (simp add: title_cp_def has_lower_cp_def)

lemma title_cp_nonempty_block: "c < 256 \<Longrightarrow> title_cp U c \<noteq> []"
  by (simp add: title_cp_def)

lemma translate_tail_block:
  assumes "latin1 s"
  shows "\<forall>d\<in>set (tl (translate_to_french U s)). \<not> is_upper_cp U d"
proof -
  let ?r = "replace_all translations_fr (py_lower U s)"
  have b: "\<forall>c\<in>set ?r. c < 256 \<and> \<not> has_lower_cp c" using replaced_block [OF assms] by blast
  show ?thesis
  proof (cases ?r)
    case Nil
    then show ?thesis by (simp add: translate_to_french_def py_capitalize_def)
  next
    case (Cons a as)
    have as: "\<forall>d\<in>set as. d < 256 \<and> \<not> has_lower_cp d" and a: "a < 256" using b Cons by auto
    then have "lower_from U ?r 1 as = as" by (simp add: lower_from_fixed lower_fixed_block)
    then have "translate_to_french U s = title_cp U a @ as"
      using Cons by (simp add: translate_to_french_def py_capitalize_def)
    then have "tl (translate_to_french U s) = tl (title_cp U a) @ as"
      using title_cp_nonempty_block [OF a] by simp
    then show ?thesis
      using tl_title_cp_block [OF a, of U] as by (auto simp: is_upper_cp_def)
  qed
qed

lemma translate_shape:
  assumes "lower_stable U"
  shows "translate_to_french U s = []
    \<or> (\<exists>c rest. translate_to_french U s = title_cp U c @ rest \<and> (\<forall>d\<in>set rest. lower_fixed U d))"
proof (cases "replace_all translations_fr (py_lower U s)")
  case Nil
  then show ?thesis by (simp add: translate_to_french_def py_capitalize_def)
next
  case (Cons a as)
  have as: "\<forall>d\<in>set as. lower_fixed U d" using replaced_fixed [OF assms, of _ s] Cons by simp
  then have "translate_to_french U s = title_cp U a @ as"
    using Cons by (simp add: translate_to_french_def py_capitalize_def lower_from_fixed)
  then show ?thesis using as by blast
qed

lemma stub_unicode_stable: "lower_stable stub_unicode"
proof -
  have "list_all (lower_fixed stub_unicode) (lower_cp stub_unicode c)" for c
    by (simp add: lower_fixed_def lower_cp_def stub_unicode_def has_lower_cp_def)
  moreover have "lower_fixed stub_unicode 962" "lower_fixed stub_unicode 963"
    by (simp_all add: lower_fixed_def lower_cp_def stub_unicode_def)
  ultimately show ?thesis by (simp add: lower_stable_def)
qed

lemmas string_eval =
  translate_to_french_def replace_all_def translations_fr_def cps_def py_lower_def lower_cp_def
  has_lower_cp_def is_upper_cp_def py_replace.simps startswith_def py_capitalize_def
  title_cp_def no_table_phrase_def parse_objects_def common_objects_def
  objet_non_identifie_def stub_unicode_def

lemma parse_objects_nonempty: "parse_objects U t \<noteq> []"
  by (simp add: parse_objects_def Let_def)

lemma parse_objects_cases:
  "(parse_objects U t = [objet_non_identifie]
      \<and> (\<forall>v\<in>set common_objects. \<not> py_in v (py_lower U t)))
   \<or> (parse_objects U t \<noteq> [] \<and> subseq (parse_objects U t) common_objects
       \<and> (\<forall>v\<in>set common_objects. v \<in> set (parse_objects U t) \<longleftrightarrow> py_in v (py_lower U t)))"
  by (auto simp add: parse_objects_def Let_def filter_empty_conv)

section \<open>Claims about the colour analysis\<close>

text \<open>
  The six buckets carry the labels of the code: \<open>rouge\<close>, \<open>vert\<close>, \<open>bleu\<close>,
  \<open>blanc\<close>, \<open>noir\<close>, \<open>mixte\<close>, for red, green, blue, white, black and mixed.
\<close>

text \<open>
  C2. For every pixel with channels in 0..255 the rule inside \<open>analyze_colors\<close> assigns
  exactly one of the six buckets, and the rules are tried in the order red (\<open>r > g\<close> and
  \<open>r > b\<close>), green, blue, white (all channels above 200), black (all channels below 50),
  mixed: each bucket is assigned exactly when its own test holds and every earlier test
  fails. A near-white pixel whose red channel dominates, such as (255, 254, 254), is red and
  not white.
\<close>

theorem pixel_color_precedence:
  assumes "r \<le> 255" and "g \<le> 255" and "b \<le> 255"
  shows "pixel_color (r, g, b) \<in> set color_buckets \<and> distinct color_buckets
    \<and> (pixel_color (r, g, b) = cps ''rouge'' \<longleftrightarrow> r > g \<and> r > b)
    \<and> (pixel_color (r, g, b) = cps ''vert'' \<longleftrightarrow> \<not> (r > g \<and> r > b) \<and> g > r \<and> g > b)
    \<and> (pixel_color (r, g, b) = cps ''bleu'' \<longleftrightarrow>
          \<not> (r > g \<and> r > b) \<and> \<not> (g > r \<and> g > b) \<and> b > r \<and> b > g)
    \<and> (pixel_color (r, g, b) = cps ''blanc'' \<longleftrightarrow>
          \<not> (r > g \<and> r > b) \<and> \<not> (g > r \<and> g > b) \<and> \<not> (b > r \<and> b > g)
          \<and> r > 200 \<and> g > 200 \<and> b > 200)
    \<and> (pixel_color (r, g, b) = cps ''noir'' \<longleftrightarrow>
          \<not> (r > g \<and> r > b) \<and> \<not> (g > r \<and> g > b) \<and> \<not> (b > r \<and> b > g)
          \<and> \<not> (r > 200 \<and> g > 200 \<and> b > 200) \<and> r < 50 \<and> g < 50 \<and> b < 50)
    \<and> (pixel_color (r, g, b) = cps ''mixte'' \<longleftrightarrow>
          \<not> (r > g \<and> r > b) \<and> \<not> (g > r \<and> g > b) \<and> \<not> (b > r \<and> b > g)
          \<and> \<not> (r > 200 \<and> g > 200 \<and> b > 200) \<and> \<not> (r < 50 \<and> g < 50 \<and> b < 50))"
proof -
  have "pixel_color (r, g, b) = cps ''rouge'' \<longleftrightarrow> r > g \<and> r > b"
    by (simp add: pixel_color_def cps_def)
  moreover have "pixel_color (r, g, b) = cps ''vert'' \<longleftrightarrow> \<not> (r > g \<and> r > b) \<and> g > r \<and> g > b"
    by (simp add: pixel_color_def cps_def)
  moreover have "pixel_color (r, g, b) = cps ''bleu'' \<longleftrightarrow>
      \<not> (r > g \<and> r > b) \<and> \<not> (g > r \<and> g > b) \<and> b > r \<and> b > g"
    by (simp add: pixel_color_def cps_def)
  moreover have "pixel_color (r, g, b) = cps ''blanc'' \<longleftrightarrow>
      \<not> (r > g \<and> r > b) \<and> \<not> (g > r \<and> g > b) \<and> \<not> (b > r \<and> b > g)
      \<and> r > 200 \<and> g > 200 \<and> b > 200"
    by (simp add: pixel_color_def cps_def)
  moreover have "pixel_color (r, g, b) = cps ''noir'' \<longleftrightarrow>
      \<not> (r > g \<and> r > b) \<and> \<not> (g > r \<and> g > b) \<and> \<not> (b > r \<and> b > g)
      \<and> \<not> (r > 200 \<and> g > 200 \<and> b > 200) \<and> r < 50 \<and> g < 50 \<and> b < 50"
    by (simp add: pixel_color_def cps_def)
  moreover have "pixel_color (r, g, b) = cps ''mixte'' \<longleftrightarrow>
      \<not> (r > g \<and> r > b) \<and> \<not> (g > r \<and> g > b) \<and> \<not> (b > r \<and> b > g)
      \<and> \<not> (r > 200 \<and> g > 200 \<and> b > 200) \<and> \<not> (r < 50 \<and> g < 50 \<and> b < 50)"
    by (simp add: pixel_color_def cps_def)
  ultimately show ?thesis
    using pixel_color_in_buckets [of "(r, g, b)"] color_buckets_distinct by blast
qed

theorem pixel_color_precedence_witness:
  "(255::nat) \<le> 255 \<and> (254::nat) \<le> 255
   \<and> pixel_color (255, 254, 254) = cps ''rouge'' \<and> pixel_color (255, 254, 254) \<noteq> cps ''blanc''
   \<and> pixel_color (254, 254, 254) = cps ''blanc''"
proof -
  have a: "(255::nat) \<le> 255" and b: "(254::nat) \<le> 255" by simp_all
  show ?thesis
    using pixel_color_precedence [OF a b b] pixel_color_precedence [OF b b b]
    by (simp add: cps_def)
qed

text \<open>
  C1. For every image, the list returned by \<open>analyze_colors\<close> has at most three elements,
  each one of the six buckets and none twice; it is ordered by descending pixel count over
  the resized image, a tie going to the bucket met first in the scan; every bucket that
  occurs and is left out ranks after every bucket returned; and the list is as long as the
  number of buckets that occur, up to three.
\<close>

theorem analyze_colors_ranked:
  "length (analyze_colors w img) \<le> 3
   \<and> set (analyze_colors w img) \<subseteq> set color_buckets
   \<and> distinct (analyze_colors w img)
   \<and> sorted_wrt (ranks_before (resize150 w img)) (analyze_colors w img)
   \<and> (\<forall>c \<in> pixel_color ` set (resize150 w img) - set (analyze_colors w img).
        \<forall>d \<in> set (analyze_colors w img). ranks_before (resize150 w img) d c)
   \<and> length (analyze_colors w img) = min 3 (card (pixel_color ` set (resize150 w img)))"
proof -
  let ?px = "resize150 w img"
  have "length (top_colors ?px) \<le> 3" by (simp add: top_colors_length)
  moreover have "set (top_colors ?px) \<subseteq> set color_buckets"
    using top_colors_subset [of ?px] pixel_color_in_buckets by blast
  moreover have "\<forall>c \<in> pixel_color ` set ?px - set (top_colors ?px).
      \<forall>d \<in> set (top_colors ?px). ranks_before ?px d c"
    using top_colors_best [of _ ?px] by blast
  ultimately show ?thesis
    unfolding analyze_colors_def
    using top_colors_distinct [of ?px] top_colors_ranked [of ?px] top_colors_length [of ?px]
    by blast
qed

theorem analyze_colors_ranked_witness:
  "analyze_colors (stub_world []) mosaic = [cps ''vert'', cps ''rouge'', cps ''bleu'']
   \<and> cps ''blanc'' \<in> pixel_color ` set (resize150 (stub_world []) mosaic)
   \<and> ranks_before (pixels mosaic) (cps ''vert'') (cps ''rouge'')
   \<and> ranks_before (pixels mosaic) (cps ''rouge'') (cps ''bleu'')
   \<and> ranks_before (pixels mosaic) (cps ''bleu'') (cps ''blanc'')"
proof -
  have r: "resize150 (stub_world []) mosaic = pixels mosaic" by (simp add: stub_world_def)
  have a: "analyze_colors (stub_world []) mosaic = [cps ''vert'', cps ''rouge'', cps ''bleu'']"
    by (simp add: analyze_colors_def r mosaic_top)
  have "pixel_color (255, 255, 255) = cps ''blanc''" by (simp add: pixel_color_def)
  moreover have "(255, 255, 255) \<in> set (pixels mosaic)" by (simp add: mosaic_def)
  ultimately have m: "cps ''blanc'' \<in> pixel_color ` set (pixels mosaic)" by (metis imageI)
  have n: "cps ''blanc'' \<notin> set [cps ''vert'', cps ''rouge'', cps ''bleu'']"
    by (simp add: cps_def)
  show ?thesis
    using analyze_colors_ranked [of "stub_world []" mosaic] m n unfolding a r by simp
qed

text \<open>
  C9. When the resized image has at least one pixel, \<open>analyze_colors\<close> returns a list of
  at least one and at most three elements.
\<close>

theorem analyze_colors_nonempty:
  "resize150 w img \<noteq> [] \<Longrightarrow> 1 \<le> length (analyze_colors w img) \<and> length (analyze_colors w img) \<le> 3"
proof -
  assume "resize150 w img \<noteq> []"
  then have "pixel_color ` set (resize150 w img) \<noteq> {}" by simp
  then have "0 < card (pixel_color ` set (resize150 w img))" by (simp add: card_gt_0_iff)
  then show ?thesis by (simp add: analyze_colors_def top_colors_length)
qed

theorem analyze_colors_nonempty_witness:
  "resize150 (stub_world []) mosaic \<noteq> [] \<and> length (analyze_colors (stub_world []) mosaic) = 3"
proof -
  have r: "resize150 (stub_world []) mosaic \<noteq> []" by (simp add: stub_world_def mosaic_def)
  have "length (analyze_colors (stub_world []) mosaic) = 3"
    by (simp add: analyze_colors_def stub_world_def mosaic_top)
  then show ?thesis using analyze_colors_nonempty [OF r] r by simp
qed

text \<open>
  C7, as the code has it. For a 150 by 150 image every pixel of which is (255, 0, 0), which
  the resize returns as it is, \<open>analyze_colors\<close> returns exactly the one-element list
  holding the label \<open>rouge\<close>. The label is not \<open>red\<close>: the theorem after the witness
  evaluates the code on that image.
\<close>

theorem analyze_colors_uniform_red:
  assumes "width img = 150" and "height img = 150"
    and "pixels img = replicate (150 * 150) (255, 0, 0)"
    and "resize150 w img = pixels img"
  shows "analyze_colors w img = [cps ''rouge'']"
  using assms by (simp add: analyze_colors_def top_colors_replicate pixel_color_def)

theorem analyze_colors_uniform_red_witness:
  "width red150 = 150 \<and> height red150 = 150 \<and> analyze_colors (stub_world []) red150 = [cps ''rouge'']"
proof -
  have "width red150 = 150" "height red150 = 150"
    "pixels red150 = replicate (150 * 150) (255, 0, 0)"
    "resize150 (stub_world []) red150 = pixels red150"
    by (simp_all add: red150_def stub_world_def)
  then show ?thesis using analyze_colors_uniform_red [of red150 "stub_world []"] by simp
qed

theorem analyze_colors_red_label_counterexample:
  "analyze_colors (stub_world []) red150 = [cps ''rouge'']
   \<and> [cps ''rouge''] \<noteq> [cps ''red'']
   \<and> top_colors (replicate (150 * 150) (255, 0, 0)) \<noteq> [cps ''red'']"
  by (simp add: analyze_colors_def stub_world_def red150_def top_colors_replicate
      pixel_color_def cps_def)

section \<open>Claims about the translator\<close>

text \<open>
  The theorems about every text assume \<open>lower_stable\<close> of the Unicode tables: no
  character of \<open>c.lower()\<close> is changed by \<open>lower()\<close> again. The block U+0000..U+00FF
  has this property by the definitions above; for the tables of CPython it can be checked
  by running over all code points.
\<close>

text \<open>
  C4. For every English text the translator computes what the specification describes:
  the input is lower-cased, every pair of the table is applied in table order, each as a
  replacement of all occurrences from the left without overlap on the string as it stands
  after the earlier pairs, and the first character of the result is capitalized. The
  right-hand side is built from the alphabets and from the search for the leftmost
  occurrence, not from the functions of the code. \<open>generate_description\<close> translates
  the decoded caption when the language is \<open>fr\<close> and returns it unchanged for every
  other language code.
\<close>

theorem translate_to_french_algorithm:
  assumes "lower_stable (ucd w)"
    and "blip w (if dl = JStr (cps ''detailed'')
                 then \<lparr>prompt = Some (cps ''a photography of''), max_length = 100,
                       num_beams = Some 5\<rparr>
                 else \<lparr>prompt = None, max_length = 50, num_beams = Some 3\<rparr>) img = Inr text"
  shows "translate_to_french (ucd w) text = spec_translate (ucd w) text
    \<and> fst (generate_description w img (JStr (cps ''fr'')) dl log)
        = Inr (spec_translate (ucd w) text)
    \<and> (language \<noteq> JStr (cps ''fr'') \<longrightarrow>
          fst (generate_description w img language dl log) = Inr text)
    \<and> translations_fr =
     [(cps ''a photo of'', cps ''une photo de''),
      (cps ''an image of'', cps ''une image de''),
      (cps ''person'', cps ''personne''),
      (cps ''people'', cps ''personnes''),
      (cps ''man'', cps ''homme''),
      (cps ''woman'', cps ''femme''),
      (cps ''car'', cps ''voiture''),
      (cps ''dog'', cps ''chien''),
      (cps ''cat'', cps ''chat''),
      (cps ''food'', cps ''nourriture''),
      (cps ''building'', cps ''b'' @ [226] @ cps ''timent''),
      (cps ''street'', cps ''rue''),
      (cps ''tree'', cps ''arbre''),
      (cps ''sky'', cps ''ciel''),
      (cps ''water'', cps ''eau''),
      (cps ''sitting'', cps ''assis''),
      (cps ''standing'', cps ''debout''),
      (cps ''walking'', cps ''marchant''),
      (cps ''on'', cps ''sur''),
      (cps ''in'', cps ''dans''),
      (cps ''with'', cps ''avec''),
      (cps ''and'', cps ''et''),
      (cps ''the'', cps ''le/la''),
      (cps ''a'', cps ''un/une'')]"
proof -
  have t: "translate_to_french (ucd w) text = spec_translate (ucd w) text"
    using assms(1) by (rule translate_refines)
  have "fst (generate_description w img l dl log) =
      Inr (if l = JStr (cps ''fr'') then translate_to_french (ucd w) text else text)" for l
    using assms(2) by (simp add: generate_description_def generate_def Let_def)
  then show ?thesis using t by (simp add: translations_fr_def)
qed

theorem translate_to_french_algorithm_witness:
  "lower_stable (ucd (stub_world (cps ''The DOG and the dog'')))
   \<and> translate_to_french stub_unicode (cps ''The DOG and the dog'')
       = cps ''Le/lun/une chien et le/lun/une chien''
   \<and> spec_translate stub_unicode (cps ''The DOG and the dog'')
       = cps ''Le/lun/une chien et le/lun/une chien''
   \<and> fst (generate_description (stub_world (cps ''The DOG and the dog'')) red150
           (JStr (cps ''fr'')) (JStr (cps ''normal'')) [])
       = Inr (cps ''Le/lun/une chien et le/lun/une chien'')
   \<and> fst (generate_description (stub_world (cps ''The DOG and the dog'')) red150
           (JStr (cps ''en'')) (JStr (cps ''normal'')) [])
       = Inr (cps ''The DOG and the dog'')"
proof -
  let ?w = "stub_world (cps ''The DOG and the dog'')"
  have u: "ucd ?w = stub_unicode" by (simp add: stub_world_def)
  have l: "lower_stable (ucd ?w)" using stub_unicode_stable by (simp only: u)
  have b: "blip ?w
      (if JStr (cps ''normal'') = JStr (cps ''detailed'')
       then \<lparr>prompt = Some (cps ''a photography of''), max_length = 100, num_beams = Some 5\<rparr>
       else \<lparr>prompt = None, max_length = 50, num_beams = Some 3\<rparr>) red150
      = Inr (cps ''The DOG and the dog'')"
    by (simp add: stub_world_def)
  have e: "JStr (cps ''en'') \<noteq> JStr (cps ''fr'')" by (simp add: cps_def)
  have v: "translate_to_french stub_unicode (cps ''The DOG and the dog'')
      = cps ''Le/lun/une chien et le/lun/une chien''"
    by (simp add: string_eval)
  note t = translate_to_french_algorithm [OF l b, of "[]" "JStr (cps ''en'')"]
  have s: "spec_translate stub_unicode (cps ''The DOG and the dog'')
      = cps ''Le/lun/une chien et le/lun/une chien''"
    using t v by (simp only: u)
  show ?thesis using t l e v s by (simp only: u) simp
qed

text \<open>
  C8, as the code has it. For every text whose lower-cased form contains no English phrase
  of the table, the output is the lower-cased input up to capitalization of its first
  character; it is the input up to capitalization of the first character when the input
  is in lower case already. Translating twice gives the same as translating once whenever
  lower-casing the output gives back the lower-cased input, and this is so when the first
  character lies in U+0000..U+00FF and is none of the micro sign (181), sharp s (223) and
  y-diaeresis (255). The theorem after the witness evaluates the code where the claim
  without these conditions fails: \<open>Hello World\<close> loses its second capital, and the
  sharp s of \<open>[223, 107, 121]\<close> becomes \<open>Ss\<close>, after which \<open>sky\<close> is a phrase of
  the table.
\<close>

theorem translate_to_french_no_phrase:
  assumes "lower_stable U" and "no_table_phrase U text"
  shows "translate_to_french U text = capitalize_first U (py_lower U text)
    \<and> (py_lower U text = text \<longrightarrow> translate_to_french U text = capitalize_first U text)
    \<and> (py_lower U (translate_to_french U text) = py_lower U text \<longrightarrow>
          translate_to_french U (translate_to_french U text) = translate_to_french U text)
    \<and> ((\<forall>c\<in>set (take 1 text). c < 256 \<and> c \<notin> {181, 223, 255}) \<longrightarrow>
          translate_to_french U (translate_to_french U text) = translate_to_french U text)"
proof -
  have a: "translate_to_french U text = capitalize_first U (py_lower U text)"
    using assms by (rule translate_no_phrase)
  have b: "translate_to_french U (translate_to_french U text) = translate_to_french U text"
    if "py_lower U (translate_to_french U text) = py_lower U text"
    using that by (rule translate_lower_only)
  have c: "py_lower U (translate_to_french U text) = py_lower U text"
    if "\<forall>c\<in>set (take 1 text). c < 256 \<and> c \<notin> {181, 223, 255}"
    using assms that by (rule translate_round_trip)
  show ?thesis using a b c by simp
qed

theorem translate_to_french_no_phrase_witness:
  "lower_stable stub_unicode \<and> no_table_phrase stub_unicode (cps ''hello world'')
   \<and> translate_to_french stub_unicode (cps ''hello world'') = cps ''Hello world''
   \<and> translate_to_french stub_unicode (cps ''Hello world'') = cps ''Hello world''"
proof -
  have n: "no_table_phrase stub_unicode (cps ''hello world'')" by (simp add: string_eval)
  have l: "py_lower stub_unicode (cps ''hello world'') = cps ''hello world''"
    by (simp add: string_eval)
  have f: "\<forall>c\<in>set (take 1 (cps ''hello world'')). c < 256 \<and> c \<notin> {181, 223, 255}"
    by (simp add: cps_def)
  have c: "capitalize_first stub_unicode (cps ''hello world'') = cps ''Hello world''"
    by (simp add: capitalize_first_def title_cp_spec [symmetric] title_cp_def cps_def)
  note t = translate_to_french_no_phrase [OF stub_unicode_stable n]
  have "translate_to_french stub_unicode (cps ''hello world'')
      = capitalize_first stub_unicode (cps ''hello world'')"
    using t l by blast
  then have r: "translate_to_french stub_unicode (cps ''hello world'') = cps ''Hello world''"
    by (simp only: c)
  have "translate_to_french stub_unicode (translate_to_french stub_unicode (cps ''hello world''))
      = translate_to_french stub_unicode (cps ''hello world'')"
    using t f by blast
  then have "translate_to_french stub_unicode (cps ''Hello world'') = cps ''Hello world''"
    by (simp only: r)
  then show ?thesis using stub_unicode_stable n r by simp
qed

theorem translate_to_french_no_phrase_counterexample:
  "no_table_phrase stub_unicode (cps ''Hello World'')
   \<and> translate_to_french stub_unicode (cps ''Hello World'') = cps ''Hello world''
   \<and> cps ''Hello world'' \<noteq> cps ''Hello World''
   \<and> cps ''Hello world'' \<noteq> capitalize_first stub_unicode (cps ''Hello World'')
   \<and> no_table_phrase stub_unicode [223, 107, 121]
   \<and> translate_to_french stub_unicode [223, 107, 121] = cps ''Ssky''
   \<and> translate_to_french stub_unicode (translate_to_french stub_unicode [223, 107, 121])
       = cps ''Sciel''"
proof -
  have 1: "no_table_phrase stub_unicode (cps ''Hello World'')" by (simp add: string_eval)
  have 2: "translate_to_french stub_unicode (cps ''Hello World'') = cps ''Hello world''"
    by (simp add: string_eval)
  have 3: "cps ''Hello world'' \<noteq> cps ''Hello World''" by (simp add: cps_def)
  have 4: "cps ''Hello world'' \<noteq> capitalize_first stub_unicode (cps ''Hello World'')"
    by (simp add: capitalize_first_def title_cp_spec [symmetric] title_cp_def cps_def)
  have 5: "no_table_phrase stub_unicode [223, 107, 121]" by (simp add: string_eval)
  have 6: "translate_to_french stub_unicode [223, 107, 121] = cps ''Ssky''"
    by (simp add: string_eval)
  have 7: "translate_to_french stub_unicode (cps ''Ssky'') = cps ''Sciel''"
    by (simp add: string_eval)
  show ?thesis using 1 2 3 4 5 6 7 by simp
qed

text \<open>
  C10, as the code has it. For every text, the output is the title-case form of one
  character, the first of the lower-cased and translated text, followed only by characters
  that lower-casing leaves unchanged: behind the title-cased first character there is no
  upper-case letter that has a lower-case mapping. When all characters of the input lie in
  U+0000..U+00FF, no character of the output after the first is an upper-case letter. The
  theorem after the witness evaluates the code where the claim without these conditions
  fails: the double-struck capital C of \<open>[120, 8450]\<close> is an upper-case letter that
  \<open>lower()\<close> does not change, and the title case of the one character 329 is an
  apostrophe followed by a capital N.
\<close>

theorem translate_to_french_tail_lower:
  assumes "lower_stable U"
  shows "(translate_to_french U text = [] \<and> replace_all translations_fr (py_lower U text) = []
       \<or> (\<exists>c rest. replace_all translations_fr (py_lower U text) = c # rest
             \<and> translate_to_french U text = title_cp U c @ rest
             \<and> (\<forall>d\<in>set rest. lower_fixed U d)))
    \<and> (latin1 text \<longrightarrow> (\<forall>d\<in>set (tl (translate_to_french U text)). \<not> is_upper_cp U d))"
proof -
  let ?r = "replace_all translations_fr (py_lower U text)"
  have "translate_to_french U text = [] \<and> ?r = []
     \<or> (\<exists>c rest. ?r = c # rest \<and> translate_to_french U text = title_cp U c @ rest
           \<and> (\<forall>d\<in>set rest. lower_fixed U d))"
  proof (cases ?r)
    case Nil
    then show ?thesis by (simp add: translate_to_french_def py_capitalize_def)
  next
    case (Cons a as)
    have as: "\<forall>d\<in>set as. lower_fixed U d"
      using replaced_fixed [OF assms, of _ "text"] Cons by simp
    then have "translate_to_french U text = title_cp U a @ as"
      using Cons by (simp add: translate_to_french_def py_capitalize_def lower_from_fixed)
    then show ?thesis using as Cons by blast
  qed
  then show ?thesis using translate_tail_block [of "text" U] by blast
qed

theorem translate_to_french_tail_lower_witness:
  "lower_stable stub_unicode \<and> latin1 (cps ''A Man AND a Dog'')
   \<and> translate_to_french stub_unicode (cps ''A Man AND a Dog'')
       = cps ''Un/une homme et un/une chien''
   \<and> list_all (\<lambda>c. \<not> is_upper_cp stub_unicode c)
        (tl (translate_to_french stub_unicode (cps ''A Man AND a Dog'')))"
proof -
  have l: "latin1 (cps ''A Man AND a Dog'')" by (simp add: latin1_def cps_def)
  have v: "translate_to_french stub_unicode (cps ''A Man AND a Dog'')
      = cps ''Un/une homme et un/une chien''"
    by (simp add: string_eval)
  have "\<forall>d\<in>set (tl (translate_to_french stub_unicode (cps ''A Man AND a Dog''))).
      \<not> is_upper_cp stub_unicode d"
    using translate_to_french_tail_lower [OF stub_unicode_stable, of "cps ''A Man AND a Dog''"] l
    by blast
  then show ?thesis using stub_unicode_stable l v by (simp add: list_all_iff)
qed

theorem translate_to_french_tail_lower_counterexample:
  "translate_to_french stub_unicode [120, 8450] = [88, 8450]
   \<and> is_upper_cp stub_unicode ([88, 8450] ! 1)
   \<and> lower_cp stub_unicode 8450 = [8450]
   \<and> translate_to_french stub_unicode [329] = [700, 78]
   \<and> is_upper_cp stub_unicode ([700, 78] ! 1)
   \<and> title_cp stub_unicode 329 = [700, 78]"
  by (simp add: string_eval)

section \<open>Claims about the tags\<close>

text \<open>
  C3, as the code has it. When the model decodes a text for the question prompt,
  \<open>detect_objects\<close> returns a non-empty list: if some entry of the vocabulary person,
  car, animal, food, building, nature, object occurs in the lower-cased text, the entries
  that occur, in vocabulary order (an entry is in the list exactly when it occurs); if
  none occurs, the single tag \<open>objet non identifi\<close> followed by e-acute. The tag is not
  \<open>unidentified object\<close>: the theorem after the witness evaluates the code on a text
  without any entry.
\<close>

theorem detect_objects_vocabulary:
  assumes "blip w \<lparr>prompt = Some (cps ''What objects are in this image?''), max_length = 30,
                 num_beams = None\<rparr> img = Inr objects_text"
  shows "fst (detect_objects w img log) = Inr (parse_objects (ucd w) objects_text)
    \<and> parse_objects (ucd w) objects_text \<noteq> []
    \<and> ((\<exists>v\<in>set common_objects. py_in v (py_lower (ucd w) objects_text)) \<longrightarrow>
          subseq (parse_objects (ucd w) objects_text) common_objects
          \<and> (\<forall>v\<in>set common_objects.
                v \<in> set (parse_objects (ucd w) objects_text)
                  \<longleftrightarrow> py_in v (py_lower (ucd w) objects_text)))
    \<and> ((\<forall>v\<in>set common_objects. \<not> py_in v (py_lower (ucd w) objects_text)) \<longrightarrow>
          parse_objects (ucd w) objects_text = [cps ''objet non identifi'' @ [233]])
    \<and> common_objects = [cps ''person'', cps ''car'', cps ''animal'', cps ''food'',
          cps ''building'', cps ''nature'', cps ''object'']"
proof -
  let ?U = "ucd w"
  have "fst (detect_objects w img log) = Inr (parse_objects ?U objects_text)"
    using assms by (simp add: detect_objects_def generate_def)
  moreover have "parse_objects ?U objects_text \<noteq> []" by (rule parse_objects_nonempty)
  moreover have "(\<forall>v\<in>set common_objects. \<not> py_in v (py_lower ?U objects_text)) \<longrightarrow>
      parse_objects ?U objects_text = [cps ''objet non identifi'' @ [233]]"
    by (simp add: parse_objects_def Let_def filter_empty_conv objet_non_identifie_def)
  moreover have "(\<exists>v\<in>set common_objects. py_in v (py_lower ?U objects_text)) \<longrightarrow>
      subseq (parse_objects ?U objects_text) common_objects
      \<and> (\<forall>v\<in>set common_objects.
            v \<in> set (parse_objects ?U objects_text) \<longleftrightarrow> py_in v (py_lower ?U objects_text))"
    using parse_objects_cases [of ?U objects_text] by blast
  ultimately show ?thesis by (simp add: common_objects_def)
qed

theorem detect_objects_vocabulary_witness:
  "fst (detect_objects (stub_world (cps ''A car and a PERSON'')) red150 [])
       = Inr [cps ''person'', cps ''car'']
   \<and> subseq [cps ''person'', cps ''car''] common_objects"
proof -
  let ?w = "stub_world (cps ''A car and a PERSON'')"
  have u: "ucd ?w = stub_unicode" by (simp add: stub_world_def)
  have b: "blip ?w
      \<lparr>prompt = Some (cps ''What objects are in this image?''), max_length = 30,
        num_beams = None\<rparr> red150 = Inr (cps ''A car and a PERSON'')"
    by (simp add: stub_world_def)
  have p: "parse_objects stub_unicode (cps ''A car and a PERSON'') = [cps ''person'', cps ''car'']"
    by (simp add: string_eval)
  have m: "\<exists>v\<in>set common_objects. py_in v (py_lower stub_unicode (cps ''A car and a PERSON''))"
    by (simp add: string_eval)
  note t = detect_objects_vocabulary [OF b, of "[]", unfolded u]
  have "subseq (parse_objects stub_unicode (cps ''A car and a PERSON'')) common_objects"
    using t m by blast
  then have "subseq [cps ''person'', cps ''car''] common_objects" by (simp only: p)
  moreover have "fst (detect_objects ?w red150 []) = Inr [cps ''person'', cps ''car'']"
    using t p by simp
  ultimately show ?thesis by simp
qed

theorem detect_objects_sentinel_counterexample:
  "filter (\<lambda>obj. py_in obj (py_lower stub_unicode (cps ''a photo of a dog''))) common_objects = []
   \<and> fst (detect_objects (stub_world (cps ''a photo of a dog'')) red150 [])
       = Inr [cps ''objet non identifi'' @ [233]]
   \<and> cps ''objet non identifi'' @ [233] \<noteq> cps ''unidentified object''"
  by (simp add: detect_objects_def generate_def stub_world_def string_eval Let_def)

section \<open>Claims about the caption and the endpoint\<close>

text \<open>
  C6. \<open>generate_description\<close> calls the model exactly once, with the parameters of the
  detail level: for \<open>detailed\<close> the prompt \<open>a photography of\<close>, at most 100 tokens
  and 5 beams; for \<open>normal\<close> (and for every level other than \<open>detailed\<close>) no
  prompt, at most 50 tokens and 3 beams. What it returns is what the model decodes for
  that call, translated when the language is \<open>fr\<close>.
\<close>

theorem generate_description_parameters:
  "generate_description w img language (JStr (cps ''detailed'')) log =
     (map_sum id (\<lambda>d. if language = JStr (cps ''fr'') then translate_to_french (ucd w) d else d)
        (blip w \<lparr>prompt = Some (cps ''a photography of''), max_length = 100,
                 num_beams = Some 5\<rparr> img),
      log @ [\<lparr>prompt = Some (cps ''a photography of''), max_length = 100, num_beams = Some 5\<rparr>])
   \<and> generate_description w img language (JStr (cps ''normal'')) log =
     (map_sum id (\<lambda>d. if language = JStr (cps ''fr'') then translate_to_french (ucd w) d else d)
        (blip w \<lparr>prompt = None, max_length = 50, num_beams = Some 3\<rparr> img),
      log @ [\<lparr>prompt = None, max_length = 50, num_beams = Some 3\<rparr>])
   \<and> (detail_level \<noteq> JStr (cps ''detailed'') \<longrightarrow>
        snd (generate_description w img language detail_level log) =
          log @ [\<lparr>prompt = None, max_length = 50, num_beams = Some 3\<rparr>])"
proof -
  have n: "JStr (cps ''normal'') \<noteq> JStr (cps ''detailed'')" by (simp add: cps_def)
  have 1: "generate_description w img language (JStr (cps ''detailed'')) log =
     (map_sum id (\<lambda>d. if language = JStr (cps ''fr'') then translate_to_french (ucd w) d else d)
        (blip w \<lparr>prompt = Some (cps ''a photography of''), max_length = 100,
                 num_beams = Some 5\<rparr> img),
      log @ [\<lparr>prompt = Some (cps ''a photography of''), max_length = 100, num_beams = Some 5\<rparr>])"
    by (cases "blip w \<lparr>prompt = Some (cps ''a photography of''), max_length = 100,
                 num_beams = Some 5\<rparr> img")
       (simp_all add: generate_description_def generate_def Let_def)
  have 2: "generate_description w img language dl log =
     (map_sum id (\<lambda>d. if language = JStr (cps ''fr'') then translate_to_french (ucd w) d else d)
        (blip w \<lparr>prompt = None, max_length = 50, num_beams = Some 3\<rparr> img),
      log @ [\<lparr>prompt = None, max_length = 50, num_beams = Some 3\<rparr>])"
    if "dl \<noteq> JStr (cps ''detailed'')" for dl
    using that
    by (cases "blip w \<lparr>prompt = None, max_length = 50, num_beams = Some 3\<rparr> img")
       (simp_all add: generate_description_def generate_def Let_def)
  show ?thesis using 1 2 [OF n] 2 [of detail_level] by simp
qed

theorem generate_description_parameters_witness:
  "JStr (cps ''quick'') \<noteq> JStr (cps ''detailed'')
   \<and> snd (generate_description (stub_world (cps ''a photo of a dog'')) red150 (JStr (cps ''fr''))
           (JStr (cps ''detailed'')) []) =
       [\<lparr>prompt = Some (cps ''a photography of''), max_length = 100, num_beams = Some 5\<rparr>]
   \<and> snd (generate_description (stub_world (cps ''a photo of a dog'')) red150 (JStr (cps ''fr''))
           (JStr (cps ''normal'')) []) =
       [\<lparr>prompt = None, max_length = 50, num_beams = Some 3\<rparr>]
   \<and> snd (generate_description (stub_world (cps ''a photo of a dog'')) red150 (JStr (cps ''fr''))
           (JStr (cps ''quick'')) []) =
       [\<lparr>prompt = None, max_length = 50, num_beams = Some 3\<rparr>]"
proof -
  have q: "JStr (cps ''quick'') \<noteq> JStr (cps ''detailed'')" by (simp add: cps_def)
  show ?thesis
    using generate_description_parameters
      [of "stub_world (cps ''a photo of a dog'')" red150 "JStr (cps ''fr'')" "[]"
          "JStr (cps ''quick'')"] q
    by simp
qed

text \<open>
  C5, as the code has it. A body that does not contain \<open>image\<close> (an object without
  that key, or an array or a string without it) is answered with status 400 and the message
  \<open>Aucune image fournie\<close>. When \<open>get_json\<close> raises, when the body is null, a boolean
  or a number, when \<open>data['image']\<close> raises, when \<open>b64decode\<close> raises on the payload,
  and when the decoded bytes cannot be opened as an image, the answer has status 500 and
  the message of the exception. In all these cases the log of model calls is unchanged:
  the request is rejected before any work of the model. The theorem after the witness
  evaluates the endpoint on three such requests: their status is 500, which is no client
  error.
\<close>

theorem analyze_image_input_errors:
  "(get_json = Inl e \<longrightarrow> analyze_image w get_json log = ((Failure e, 500), log))
   \<and> (py_contains data (cps ''image'') = Inr False \<longrightarrow>
        analyze_image w (Inr data) log = ((Failure (cps ''Aucune image fournie''), 400), log)
        \<and> client_error (snd (fst (analyze_image w (Inr data) log))))
   \<and> (py_contains data (cps ''image'') = Inl e \<longrightarrow>
        analyze_image w (Inr data) log = ((Failure e, 500), log)
        \<and> \<not> client_error (snd (fst (analyze_image w (Inr data) log))))
   \<and> (py_contains data (cps ''image'') = Inr True \<and> py_getitem data (cps ''image'') = Inl e \<longrightarrow>
        analyze_image w (Inr data) log = ((Failure e, 500), log)
        \<and> \<not> client_error (snd (fst (analyze_image w (Inr data) log))))
   \<and> (py_contains data (cps ''image'') = Inr True
        \<and> py_getitem data (cps ''image'') = Inr payload \<and> b64decode w payload = Inl e \<longrightarrow>
        analyze_image w (Inr data) log = ((Failure e, 500), log)
        \<and> \<not> client_error (snd (fst (analyze_image w (Inr data) log))))
   \<and> (py_contains data (cps ''image'') = Inr True
        \<and> py_getitem data (cps ''image'') = Inr payload \<and> b64decode w payload = Inr image_data
        \<and> image_open w image_data = Inl e \<longrightarrow>
        analyze_image w (Inr data) log = ((Failure e, 500), log)
        \<and> \<not> client_error (snd (fst (analyze_image w (Inr data) log))))
   \<and> (cps ''image'' \<notin> set (map fst d) \<longrightarrow>
        analyze_image w (Inr (JObj d)) log
          = ((Failure (cps ''Aucune image fournie''), 400), log))
   \<and> analyze_image w (Inr JNull) log =
        ((Failure (cps ''argument of type '' @ quoted (cps ''NoneType'')
            @ cps '' is not iterable''), 500), log)
   \<and> snd (analyze_image w (Inr (JBool b)) log) = log
   \<and> snd (fst (analyze_image w (Inr (JBool b)) log)) = 500
   \<and> snd (analyze_image w (Inr (JInt n)) log) = log
   \<and> snd (fst (analyze_image w (Inr (JInt n)) log)) = 500
   \<and> snd (analyze_image w (Inr (JFloat x)) log) = log
   \<and> snd (fst (analyze_image w (Inr (JFloat x)) log)) = 500"
  by (simp add: analyze_image_def server_error_def client_error_def)

theorem analyze_image_input_errors_witness:
  "analyze_image (stub_world []) (Inr (JObj [(cps ''language'', JStr (cps ''en''))])) [] =
     ((Failure (cps ''Aucune image fournie''), 400), [])
   \<and> client_error 400
   \<and> snd (analyze_image (stub_world []) (Inr JNull) []) = []
   \<and> snd (analyze_image (stub_world []) (Inr (JArr [JStr (cps ''image'')])) []) = []
   \<and> snd (analyze_image (stub_world []) (Inr (JObj [(cps ''image'', JStr (cps ''abc''))])) [])
       = []
   \<and> snd (analyze_image (stub_world []) (Inr (JObj [(cps ''image'', JStr (cps ''YWJj''))])) [])
       = []"
proof -
  let ?w = "stub_world []"
  note t = analyze_image_input_errors [where w = ?w and log = "[]"]
  have 1: "py_contains (JObj [(cps ''language'', JStr (cps ''en''))]) (cps ''image'') = Inr False"
    by (simp add: cps_def)
  have a: "analyze_image ?w (Inr (JObj [(cps ''language'', JStr (cps ''en''))])) [] =
       ((Failure (cps ''Aucune image fournie''), 400), [])"
    using t [where data = "JObj [(cps ''language'', JStr (cps ''en''))]"] 1 by blast
  have 2: "py_contains JNull (cps ''image'') =
      Inl (cps ''argument of type '' @ quoted (cps ''NoneType'') @ cps '' is not iterable'')"
    by simp
  have b: "snd (analyze_image ?w (Inr JNull) []) = []"
    using t [where data = JNull
        and e = "cps ''argument of type '' @ quoted (cps ''NoneType'') @ cps '' is not iterable''"]
      2 by simp
  have 3: "py_contains (JArr [JStr (cps ''image'')]) (cps ''image'') = Inr True
      \<and> py_getitem (JArr [JStr (cps ''image'')]) (cps ''image'')
          = Inl (cps ''list indices must be integers or slices, not str'')"
    by simp
  have c: "snd (analyze_image ?w (Inr (JArr [JStr (cps ''image'')])) []) = []"
    using t [where data = "JArr [JStr (cps ''image'')]"
        and e = "cps ''list indices must be integers or slices, not str''"] 3 by simp
  have 4: "py_contains (JObj [(cps ''image'', JStr (cps ''abc''))]) (cps ''image'') = Inr True
      \<and> py_getitem (JObj [(cps ''image'', JStr (cps ''abc''))]) (cps ''image'')
          = Inr (JStr (cps ''abc''))
      \<and> b64decode ?w (JStr (cps ''abc'')) = Inl (cps ''Incorrect padding'')"
    by (simp add: stub_world_def cps_def)
  have d: "snd (analyze_image ?w (Inr (JObj [(cps ''image'', JStr (cps ''abc''))])) []) = []"
    using t [where data = "JObj [(cps ''image'', JStr (cps ''abc''))]"
        and payload = "JStr (cps ''abc'')" and e = "cps ''Incorrect padding''"] 4 by simp
  have 5: "py_contains (JObj [(cps ''image'', JStr (cps ''YWJj''))]) (cps ''image'') = Inr True
      \<and> py_getitem (JObj [(cps ''image'', JStr (cps ''YWJj''))]) (cps ''image'')
          = Inr (JStr (cps ''YWJj''))
      \<and> b64decode ?w (JStr (cps ''YWJj'')) = Inr [97, 98, 99]
      \<and> image_open ?w [97, 98, 99] = Inl (cps ''cannot identify image file'')"
    by (simp add: stub_world_def)
  have e: "snd (analyze_image ?w (Inr (JObj [(cps ''image'', JStr (cps ''YWJj''))])) []) = []"
    using t [where data = "JObj [(cps ''image'', JStr (cps ''YWJj''))]"
        and payload = "JStr (cps ''YWJj'')" and e = "cps ''cannot identify image file''"
        and image_data = "[97, 98, 99]"] 5 by simp
  show ?thesis using a b c d e by (simp add: client_error_def)
qed

theorem analyze_image_input_errors_counterexample:
  "analyze_image (stub_world []) (Inr (JObj [(cps ''image'', JStr (cps ''abc''))])) [] =
     ((Failure (cps ''Incorrect padding''), 500), [])
   \<and> analyze_image (stub_world []) (Inr (JObj [(cps ''image'', JStr (cps ''YWJj''))])) [] =
     ((Failure (cps ''cannot identify image file''), 500), [])
   \<and> analyze_image (stub_world []) (Inr JNull) [] =
     ((Failure (cps ''argument of type '' @ quoted (cps ''NoneType'')
          @ cps '' is not iterable''), 500), [])
   \<and> \<not> client_error 500"
  by (simp add: analyze_image_def server_error_def client_error_def stub_world_def cps_def)

end
